theory Spec2Isabelle
  imports Complex_Main "HOL-Library.Sublist" "HOL-Library.Multiset"
begin

section \<open>LeadGen: the front-end client and the specified back-end core\<close>

text \<open>
  The repository's source holds the React front end: the manual-entry page
  (\<open>ManualEntry\<close>, with \<open>handleSubmit\<close> and \<open>suggestEmails\<close>), the leads list
  (\<open>LeadsList\<close>, with \<open>toggleLead\<close> and \<open>planRoute\<close>) and the HTTP client
  (\<open>routesApi.planRoute\<close>). The first part of this theory embeds those functions.
  The back-end services named by the specification (route optimizer, distance matrix,
  entity matcher) have no source in the repository; the second part models them from the
  specification's text.
\<close>

subsection \<open>JavaScript values, requests and effects\<close>

text \<open>
  A JavaScript string is modelled as a \<open>string\<close>, the list of its code units. The
  functions of the front end compare code units only with one another and with the ASCII
  characters of their patterns (space, slash, the protocol prefixes), and they take the
  built-in \<open>toLowerCase\<close> as a parameter, so that no property below depends on the
  number of values a code unit can have.
  A \<open>number\<close> that holds an id is an \<open>int\<close>. \<open>JUndefined\<close> is the value of an optional
  parameter that the caller left out.
\<close>

datatype jsval =
    JNum int
  | JStr string
  | JBool bool
  | JArr "jsval list"
  | JUndefined

type_synonym jsobject = "(string \<times> jsval) list"

text \<open>
  \<open>axios\<close> serialises an object body with \<open>JSON.stringify\<close>, which leaves out every
  property whose value is \<open>undefined\<close>. \<open>json_fields\<close> gives the properties that reach
  the wire, in order.
\<close>

definition json_fields :: "jsobject \<Rightarrow> jsobject" where
  "json_fields obj = filter (\<lambda>kv. snd kv \<noteq> JUndefined) obj"

record request =
  url :: string
  params :: jsobject
  data :: "jsobject option"

text \<open>The outcome of an awaited \<open>axios.post\<close>: the promise rejects, or resolves with
  the response's \<open>data\<close> object.\<close>

datatype axios_result = Rejected | Resolved jsobject

datatype effect =
    PreventDefault
  | ToastError string
  | ToastWarning string
  | ToastSuccess string
  | ToastInfo string
  | ToastRoutePlanned jsval jsval
  | Post request
  | ConsoleError
  | NavigateAfter nat string jsval
  | WindowOpen jsval

text \<open>The requests issued within a run, in order.\<close>

fun requests :: "effect list \<Rightarrow> request list" where
  "requests [] = []"
| "requests (Post r # es) = r # requests es"
| "requests (_ # es) = requests es"

subsection \<open>LeadsList: the selection set\<close>

text \<open>
  A JavaScript \<open>Set<number>\<close> keeps its members in insertion order without
  repetition; it is modelled as the list of members in that order. \<open>has\<close>, \<open>delete\<close>
  and \<open>add\<close> are the three operations \<open>toggleLead\<close> uses.
\<close>

type_synonym jsset = "int list"

definition set_has :: "jsset \<Rightarrow> int \<Rightarrow> bool" where
  "set_has s x = (x \<in> set s)"

definition set_delete :: "jsset \<Rightarrow> int \<Rightarrow> jsset" where
  "set_delete s x = removeAll x s"

definition set_add :: "jsset \<Rightarrow> int \<Rightarrow> jsset" where
  "set_add s x = (if x \<in> set s then s else s @ [x])"

text \<open>
  \<^verbatim>\<open>
  const toggleLead = (id: number) => {
    const newSelected = new Set(selectedLeads);
    if (newSelected.has(id)) { newSelected.delete(id); } else { newSelected.add(id); }
    setSelectedLeads(newSelected);
  };
  \<close>
  The function takes the current \<open>selectedLeads\<close> and returns the value handed to
  \<open>setSelectedLeads\<close>.
\<close>

definition toggleLead :: "int \<Rightarrow> jsset \<Rightarrow> jsset" where
  "toggleLead lead_id selectedLeads =
     (let newSelected = selectedLeads in
      if set_has newSelected lead_id then set_delete newSelected lead_id
      else set_add newSelected lead_id)"

subsection \<open>The route-planning client\<close>

text \<open>
  \<^verbatim>\<open>
  planRoute: (leadIds: number[], startLocation?: string, optimize: boolean = true) =>
    api.post<RoutePlan>('/api/routes/plan', {
      lead_ids: leadIds, start_location: startLocation, optimize })
  \<close>
  An optional parameter is an \<open>option\<close>; \<open>None\<close> is the argument left out (or passed
  as \<open>undefined\<close>), for which the default \<open>true\<close> of \<open>optimize\<close> applies.
\<close>

definition routesApi_planRoute :: "int list \<Rightarrow> string option \<Rightarrow> bool option \<Rightarrow> request" where
  "routesApi_planRoute leadIds startLocation optimize =
     (let opt = (case optimize of None \<Rightarrow> True | Some b \<Rightarrow> b) in
      \<lparr> url = ''/api/routes/plan'',
        params = [],
        data = Some [(''lead_ids'', JArr (map JNum leadIds)),
                     (''start_location'', (case startLocation of None \<Rightarrow> JUndefined | Some s \<Rightarrow> JStr s)),
                     (''optimize'', JBool opt)] \<rparr>)"

text \<open>Reading a property of a response object; a missing property reads as \<open>undefined\<close>.\<close>

definition get_prop :: "jsobject \<Rightarrow> string \<Rightarrow> jsval" where
  "get_prop obj k = (case map_of obj k of None \<Rightarrow> JUndefined | Some v \<Rightarrow> v)"

text \<open>JavaScript truthiness of the values that occur here.\<close>

fun truthy :: "jsval \<Rightarrow> bool" where
  "truthy (JNum n) = (n \<noteq> 0)"
| "truthy (JStr s) = (s \<noteq> [])"
| "truthy (JBool b) = b"
| "truthy (JArr _) = True"
| "truthy JUndefined = False"

text \<open>
  \<open>LeadsList.planRoute\<close>: with nothing selected it warns and returns; otherwise it posts
  the selected ids (\<open>Array.from(selectedLeads)\<close>, insertion order) with no start location
  and the default \<open>optimize\<close>, reports the plan, and opens the map link when there is one.
  The success toast's text is built from the response's \<open>total_distance\<close> and
  \<open>estimated_duration\<close>; \<open>ToastRoutePlanned\<close> records the two values it shows.
\<close>

definition LeadsList_planRoute :: "(request \<Rightarrow> axios_result) \<Rightarrow> jsset \<Rightarrow> effect list" where
  "LeadsList_planRoute server selectedLeads =
     (if length selectedLeads = 0 then [ToastWarning ''Please select at least one lead'']
      else
        let req = routesApi_planRoute selectedLeads None None in
        case server req of
          Rejected \<Rightarrow> [ToastInfo ''Planning route...'', Post req, ToastError ''Failed to plan route'']
        | Resolved d \<Rightarrow>
            [ToastInfo ''Planning route...'', Post req,
             ToastRoutePlanned (get_prop d ''total_distance'') (get_prop d ''estimated_duration'')]
            @ (if truthy (get_prop d ''map_url'') then [WindowOpen (get_prop d ''map_url'')] else []))"

subsection \<open>JavaScript string operations\<close>

text \<open>
  \<open>String.prototype.toLowerCase\<close> is a built-in of the language, not code of the
  repository, and on arbitrary strings it is neither a map over the code units nor
  length-preserving. The functions that call it take it as a parameter named
  \<open>toLowerCase\<close>. For the sample inputs, \<open>toLowerCase_latin1\<close> is what the built-in
  does on a string whose code units are all below 256: the letters \<open>A\<close> to \<open>Z\<close> and the
  Latin-1 capitals (192 to 222, without the multiplication sign 215) move up by 32, and
  every other code unit stays.
\<close>

definition toLowerCase_latin1_char :: "char \<Rightarrow> char" where
  "toLowerCase_latin1_char c =
     (let n = (of_char c :: nat) in
      if (65 \<le> n \<and> n \<le> 90) \<or> (192 \<le> n \<and> n \<le> 222 \<and> n \<noteq> 215)
      then char_of (n + 32) else c)"

definition toLowerCase_latin1 :: "string \<Rightarrow> string" where
  "toLowerCase_latin1 s = map toLowerCase_latin1_char s"

text \<open>
  \<open>s.split(c)\<close> for a separator of one character: the pieces between the separators,
  empty pieces included; the empty string gives one empty piece.
\<close>

fun js_split :: "char \<Rightarrow> string \<Rightarrow> string list" where
  "js_split c [] = [[]]"
| "js_split c (x # xs) =
     (if x = c then [] # js_split c xs
      else (case js_split c xs of
              [] \<Rightarrow> [[x]]
            | piece # pieces \<Rightarrow> (x # piece) # pieces))"

text \<open>
  \<open>s.replace(pat, rep)\<close> with a string pattern: only the first occurrence of \<open>pat\<close>,
  wherever it is, is replaced.
\<close>

fun js_replace :: "string \<Rightarrow> string \<Rightarrow> string \<Rightarrow> string" where
  "js_replace pat rep [] = (if pat = [] then rep else [])"
| "js_replace pat rep (x # xs) =
     (if prefix pat (x # xs) then rep @ drop (length pat) (x # xs)
      else x # js_replace pat rep xs)"

text \<open>\<open>s[0]\<close>: the first code unit as a string, \<open>undefined\<close> (\<open>None\<close>) for the empty string.\<close>

definition js_first :: "string \<Rightarrow> string option" where
  "js_first s = (case s of [] \<Rightarrow> None | x # _ \<Rightarrow> Some [x])"

subsection \<open>ManualEntry: the form, its submission and the email suggestions\<close>

record manual_entry =
  companyName :: string
  companyWebsite :: string
  jobTitle :: string
  jobDescription :: string
  location :: string
  contactName :: string
  contactEmail :: string
  contactPhone :: string
  notes_field :: string
  emailSuggestions :: "string list"

definition manual_request :: "string \<Rightarrow> manual_entry \<Rightarrow> request" where
  "manual_request API_URL st =
     \<lparr> url = API_URL @ ''/api/import/job/manual'',
       params = [(''company_name'', JStr (companyName st)),
                 (''company_website'', JStr (companyWebsite st)),
                 (''job_title'', JStr (jobTitle st)),
                 (''job_description'', JStr (jobDescription st)),
                 (''location'', JStr (location st)),
                 (''contact_name'', JStr (contactName st)),
                 (''contact_email'', JStr (contactEmail st)),
                 (''contact_phone'', JStr (contactPhone st)),
                 (''notes'', JStr (notes_field st))],
       data = None \<rparr>"

text \<open>
  \<open>handleSubmit\<close>: the guard \<open>if (!companyName || !jobTitle)\<close> reports the error and
  returns before the \<open>try\<close> block; an empty string is the only falsy string. Otherwise
  the import request is posted; on success the form is reset and the navigation to the new
  lead is scheduled after 1000 ms; a rejected request is reported and logged. The result
  is the form afterwards and the effects in order.
\<close>

definition handleSubmit ::
  "string \<Rightarrow> (request \<Rightarrow> axios_result) \<Rightarrow> manual_entry \<Rightarrow> manual_entry \<times> effect list" where
  "handleSubmit API_URL server st =
     (if companyName st = [] \<or> jobTitle st = []
      then (st, [PreventDefault, ToastError ''Company name and job title are required''])
      else
        let req = manual_request API_URL st in
        case server req of
          Rejected \<Rightarrow>
            (st, [PreventDefault, Post req, ToastError ''Failed to create lead'', ConsoleError])
        | Resolved d \<Rightarrow>
            (st\<lparr> companyName := [], companyWebsite := [], jobTitle := [],
                 jobDescription := [], location := [], contactName := [],
                 contactEmail := [], contactPhone := [], notes_field := [] \<rparr>,
             [PreventDefault, Post req, ToastSuccess ''Lead created successfully!'',
              NavigateAfter 1000 ''/leads/'' (get_prop d ''lead_id'')]))"

text \<open>
  The domain of the suggested addresses:
  \<^verbatim>\<open>companyWebsite.replace('http://', '').replace('https://', '').split('/')[0]\<close>
\<close>

definition emailDomain :: "string \<Rightarrow> string" where
  "emailDomain website =
     hd (js_split CHR ''/'' (js_replace ''https://'' [] (js_replace ''http://'' [] website)))"

definition suggest_request :: "string \<Rightarrow> string \<Rightarrow> string \<Rightarrow> request" where
  "suggest_request API_URL firstName lastName =
     \<lparr> url = API_URL @ ''/api/import/contact/suggest-emails'',
       params = [(''company_id'', JNum 0),
                 (''first_name'', JStr firstName),
                 (''last_name'', JStr lastName)],
       data = None \<rparr>"

text \<open>The six patterns, from the first name, the last name, their first code units
  (\<open>firstName[0]\<close>, \<open>lastName[0]\<close>) and the domain; each \<open>.toLowerCase()\<close> of the source
  is a call of the parameter.\<close>

definition patterns ::
  "(string \<Rightarrow> string) \<Rightarrow> string \<Rightarrow> string \<Rightarrow> string \<Rightarrow> string \<Rightarrow> string \<Rightarrow> string list" where
  "patterns toLowerCase firstName f0 lastName l0 domain =
     [toLowerCase firstName @ ''.'' @ toLowerCase lastName @ ''@'' @ domain,
      toLowerCase firstName @ toLowerCase lastName @ ''@'' @ domain,
      toLowerCase f0 @ toLowerCase lastName @ ''@'' @ domain,
      toLowerCase firstName @ ''@'' @ domain,
      toLowerCase firstName @ toLowerCase l0 @ ''@'' @ domain,
      toLowerCase f0 @ ''.'' @ toLowerCase lastName @ ''@'' @ domain]"

text \<open>
  \<open>suggestEmails\<close>: two guards warn and return (name or website empty; fewer than two
  pieces after \<open>contactName.split(' ')\<close>). Inside the \<open>try\<close> block the request is
  awaited first; then the patterns are built. \<open>firstName[0]\<close> of an empty piece is
  \<open>undefined\<close>, and calling \<open>toLowerCase\<close> on it throws a \<open>TypeError\<close>; the \<open>catch\<close>
  block logs it, as it logs a rejected request, and \<open>setEmailSuggestions\<close> is not
  reached.
\<close>

definition suggestEmails ::
  "(string \<Rightarrow> string) \<Rightarrow> string \<Rightarrow> (request \<Rightarrow> axios_result) \<Rightarrow> manual_entry
     \<Rightarrow> manual_entry \<times> effect list" where
  "suggestEmails toLowerCase API_URL server st =
     (if contactName st = [] \<or> companyWebsite st = []
      then (st, [ToastWarning ''Enter contact name and company website first''])
      else
        let names = js_split CHR '' '' (contactName st) in
        if length names < 2
        then (st, [ToastWarning ''Please enter full name (First Last)''])
        else
          let domain = emailDomain (companyWebsite st);
              firstName = hd names;
              lastName = last names;
              req = suggest_request API_URL firstName lastName
          in case server req of
               Rejected \<Rightarrow> (st, [Post req, ConsoleError])
             | Resolved d \<Rightarrow>
                 (case (js_first firstName, js_first lastName) of
                    (Some f0, Some l0) \<Rightarrow>
                      (st\<lparr> emailSuggestions :=
                           patterns toLowerCase firstName f0 lastName l0 domain \<rparr>,
                       [Post req])
                  | _ \<Rightarrow> (st, [Post req, ConsoleError])))"

subsection \<open>The wording of the claims about the suggestions\<close>

text \<open>
  Two readings taken from the description of the suggestions, to be compared with what
  \<open>suggestEmails\<close> computes: the whitespace-separated tokens of a name (the maximal
  runs of characters other than space, tab, line feed and carriage return), and the
  website with a leading protocol removed and cut at the first slash.
\<close>

definition is_whitespace :: "char \<Rightarrow> bool" where
  "is_whitespace c = (c = CHR '' '' \<or> c = CHR 0x09 \<or> c = CHR 0x0A \<or> c = CHR 0x0D)"

fun split_whitespace :: "string \<Rightarrow> string list" where
  "split_whitespace [] = [[]]"
| "split_whitespace (x # xs) =
     (if is_whitespace x then [] # split_whitespace xs
      else (case split_whitespace xs of
              [] \<Rightarrow> [[x]]
            | piece # pieces \<Rightarrow> (x # piece) # pieces))"

definition whitespace_tokens :: "string \<Rightarrow> string list" where
  "whitespace_tokens s = filter (\<lambda>t. t \<noteq> []) (split_whitespace s)"

definition leading_protocol_removed :: "string \<Rightarrow> string" where
  "leading_protocol_removed website =
     takeWhile (\<lambda>c. c \<noteq> CHR ''/'')
       (if prefix ''http://'' website then drop 7 website
        else if prefix ''https://'' website then drop 8 website
        else website)"

subsection \<open>Sample inputs\<close>

text \<open>The row of the CSV template that the page offers for download, as a filled form;
  a server that accepts every request, and one that is unreachable.\<close>

definition template_form :: manual_entry where
  "template_form =
     \<lparr> companyName = ''TechCorp Inc'', companyWebsite = ''https://techcorp.com'',
       jobTitle = ''Sales Manager'', jobDescription = ''Looking for experienced sales manager...'',
       location = ''San Francisco CA'', contactName = ''John Smith'',
       contactEmail = ''john.smith@techcorp.com'', contactPhone = ''555-1234'',
       notes_field = [], emailSuggestions = [] \<rparr>"

definition server_ok :: "request \<Rightarrow> axios_result" where
  "server_ok req = Resolved [(''lead_id'', JNum 1)]"

definition server_down :: "request \<Rightarrow> axios_result" where
  "server_down req = Rejected"

section \<open>The back-end core, modelled from the specification\<close>

subsection \<open>DistanceMatrixBuilder\<close>

record GeoPoint =
  latitude :: real
  longitude :: real

text \<open>
  Modelled from the spec: the great-circle (haversine) distance, the default cost metric
  of \<open>DistanceMatrixBuilder\<close>, which has no source in the repository. Coordinates are
  degrees; \<open>radius\<close> is the sphere's radius in the unit of the result. The arithmetic is
  over the real numbers.
\<close>

definition haversine :: "real \<Rightarrow> GeoPoint \<Rightarrow> GeoPoint \<Rightarrow> real" where
  "haversine radius p q =
     (let phi1 = latitude p * pi / 180;
          phi2 = latitude q * pi / 180;
          dphi = (latitude q - latitude p) * pi / 180;
          dlambda = (longitude q - longitude p) * pi / 180;
          a = (sin (dphi / 2))\<^sup>2 + cos phi1 * cos phi2 * (sin (dlambda / 2))\<^sup>2
      in 2 * radius * arcsin (sqrt a))"

text \<open>
  Modelled from the spec: \<open>build(points[]) -> matrix[N][N]\<close> of
  \<open>DistanceMatrixBuilder\<close> (no source in the repository): entry \<open>i, j\<close> is the cost
  from point \<open>i\<close> to point \<open>j\<close> under the metric in use.
\<close>

definition build_with :: "('p \<Rightarrow> 'p \<Rightarrow> real) \<Rightarrow> 'p list \<Rightarrow> real list list" where
  "build_with metric points = map (\<lambda>p. map (\<lambda>q. metric p q) points) points"

text \<open>
  Modelled from the spec: the default of \<open>DistanceMatrixBuilder.build\<close> (no source in the
  repository), the matrix under the haversine metric.
\<close>

definition build :: "real \<Rightarrow> GeoPoint list \<Rightarrow> real list list" where
  "build radius points = build_with (haversine radius) points"

subsection \<open>RouteOptimizer\<close>

text \<open>
  Modelled from the spec: the error taxonomy of section 7, as far as the optimizer needs
  it (a malformed request is rejected before optimization).
\<close>

datatype route_error = ValidationError

text \<open>
  Modelled from the spec: the deterministic tie-break of \<open>RouteOptimizer\<close> (no source in
  the repository): among the candidates of lowest cost, the lowest index.
\<close>

fun lowest_cost_index :: "(nat \<Rightarrow> real) \<Rightarrow> nat list \<Rightarrow> nat option" where
  "lowest_cost_index f [] = None"
| "lowest_cost_index f (j # js) =
     (case lowest_cost_index f js of
        None \<Rightarrow> Some j
      | Some k \<Rightarrow> if f j < f k \<or> (f j = f k \<and> j < k) then Some j else Some k)"

text \<open>
  Modelled from the spec: step 1 of \<open>RouteOptimizer.optimize\<close>, the nearest-neighbour
  construction. From the current stop the nearest unvisited index is taken next, once
  for each of the \<open>n\<close> remaining stops.
\<close>

definition nearest :: "real list list \<Rightarrow> nat \<Rightarrow> nat list \<Rightarrow> nat option" where
  "nearest m cur unvisited = lowest_cost_index (\<lambda>j. m ! cur ! j) unvisited"

text \<open>
  Modelled from the spec: the loop of the nearest-neighbour construction of
  \<open>RouteOptimizer\<close> (no source in the repository), one stop per iteration.
\<close>

fun nn_visit :: "nat \<Rightarrow> real list list \<Rightarrow> nat \<Rightarrow> nat list \<Rightarrow> nat list" where
  "nn_visit 0 m cur unvisited = []"
| "nn_visit (Suc n) m cur unvisited =
     (case nearest m cur unvisited of
        None \<Rightarrow> []
      | Some k \<Rightarrow> k # nn_visit n m k (remove1 k unvisited))"

text \<open>
  Modelled from the spec: the initial tour of \<open>RouteOptimizer\<close> (no source in the
  repository): the start, then the nearest-neighbour visits of all other indices.
\<close>

definition nearest_neighbor :: "real list list \<Rightarrow> nat \<Rightarrow> nat list" where
  "nearest_neighbor m start =
     start # nn_visit (length m - 1) m start (remove1 start [0..<length m])"

text \<open>Modelled from the spec: the total distance of an open path (no return to the
  start), the quantity \<open>RouteOptimizer\<close> lowers.\<close>

fun tour_length :: "real list list \<Rightarrow> nat list \<Rightarrow> real" where
  "tour_length m (a # b # rest) = m ! a ! b + tour_length m (b # rest)"
| "tour_length m _ = 0"

text \<open>
  Modelled from the spec: without a start index, the start is the point whose
  nearest-neighbour tour is shortest, the lower index among equals.
\<close>

definition best_start :: "real list list \<Rightarrow> nat option" where
  "best_start m =
     lowest_cost_index (\<lambda>s. tour_length m (nearest_neighbor m s)) [0..<length m]"

text \<open>
  Modelled from the spec: step 2 of \<open>RouteOptimizer.optimize\<close>, the 2-opt improvement.
  A swap removes two edges of the path and reverses the stops between them, positions
  \<open>i\<close> to \<open>j\<close>; the first and the last stop stay. Each iteration applies the first swap,
  in the order of \<open>(i, j)\<close>, that shortens the path; the loop ends when no swap does or
  when the iteration budget is used up, with the best tour found so far.
\<close>

definition reverse_segment :: "nat list \<Rightarrow> nat \<Rightarrow> nat \<Rightarrow> nat list" where
  "reverse_segment tour i j =
     take i tour @ rev (take (Suc j - i) (drop i tour)) @ drop (Suc j) tour"

text \<open>
  Modelled from the spec: the swaps a 2-opt pass of \<open>RouteOptimizer\<close> (no source in the
  repository) tries on a path of \<open>n\<close> stops, in order.
\<close>

definition swap_positions :: "nat \<Rightarrow> (nat \<times> nat) list" where
  "swap_positions n = concat (map (\<lambda>i. map (\<lambda>j. (i, j)) [Suc i..<n - 1]) [1..<n - 1])"

text \<open>
  Modelled from the spec: the first swap of a 2-opt pass of \<open>RouteOptimizer\<close> (no source
  in the repository) that reduces the total distance.
\<close>

definition first_improvement :: "real list list \<Rightarrow> nat list \<Rightarrow> (nat \<times> nat) option" where
  "first_improvement m tour =
     find (\<lambda>(i, j). tour_length m (reverse_segment tour i j) < tour_length m tour)
          (swap_positions (length tour))"

text \<open>
  Modelled from the spec: the 2-opt loop of \<open>RouteOptimizer\<close> (no source in the
  repository), bounded by the iteration budget.
\<close>

fun two_opt :: "nat \<Rightarrow> real list list \<Rightarrow> nat list \<Rightarrow> nat list" where
  "two_opt 0 m tour = tour"
| "two_opt (Suc budget) m tour =
     (case first_improvement m tour of
        None \<Rightarrow> tour
      | Some (i, j) \<Rightarrow> two_opt budget m (reverse_segment tour i j))"

text \<open>
  Modelled from the spec: the checks of \<open>optimize(matrix, startIndex?) ->
  orderedIndices[]\<close> of \<open>RouteOptimizer\<close> (no source in the repository). A matrix that
  is not square, or a start index outside it, is a malformed request. No points give the
  empty route.
\<close>

definition square :: "real list list \<Rightarrow> bool" where
  "square m = list_all (\<lambda>row. length row = length m) m"

text \<open>
  Modelled from the spec: the entry point of \<open>RouteOptimizer\<close> (no source in the
  repository), with the iteration budget of the 2-opt loop as its first argument.
\<close>

definition optimize :: "nat \<Rightarrow> real list list \<Rightarrow> nat option \<Rightarrow> route_error + nat list" where
  "optimize budget m startIndex =
     (if \<not> square m then Inl ValidationError
      else if length m = 0 then Inr []
      else case startIndex of
             Some s \<Rightarrow>
               if s < length m then Inr (two_opt budget m (nearest_neighbor m s))
               else Inl ValidationError
           | None \<Rightarrow>
               (case best_start m of
                  None \<Rightarrow> Inr []
                | Some s \<Rightarrow> Inr (two_opt budget m (nearest_neighbor m s))))"

text \<open>
  Modelled from the spec: the points kept by the route-planning flow around the optimizer
  (no source in the repository). Each input point comes with the outcome of geocoding,
  \<open>None\<close> for an unresolvable address. Unresolvable points are left out of the matrix
  and reported separately; the optimizer's order is given in the indices of the input.
\<close>

definition geocoded :: "'p option list \<Rightarrow> nat list" where
  "geocoded points = filter (\<lambda>i. points ! i \<noteq> None) [0..<length points]"

text \<open>
  Modelled from the spec: the points reported as geocode failures by the route-planning
  flow (no source in the repository).
\<close>

definition unresolvable :: "'p option list \<Rightarrow> nat list" where
  "unresolvable points = filter (\<lambda>i. points ! i = None) [0..<length points]"

text \<open>
  Modelled from the spec: the order of the stops in the route-planning flow (no source in
  the repository), with the excluded points beside it.
\<close>

definition plan_order ::
  "('p \<Rightarrow> 'p \<Rightarrow> real) \<Rightarrow> nat \<Rightarrow> 'p option list \<Rightarrow> nat option
     \<Rightarrow> route_error + (nat list \<times> nat list)" where
  "plan_order metric budget points startIndex =
     (let valid = geocoded points;
          m = build_with metric (map (\<lambda>i. the (points ! i)) valid)
      in case optimize budget m startIndex of
           Inl e \<Rightarrow> Inl e
         | Inr tour \<Rightarrow> Inr (map (\<lambda>k. valid ! k) tour, unresolvable points))"

text \<open>Sample input: four stops on a line at 0, 3, 1 and 2, the third address
  unresolvable in \<open>line_points\<close>; the cost is the distance on the line.\<close>

definition line_metric :: "real \<Rightarrow> real \<Rightarrow> real" where
  "line_metric x y = \<bar>x - y\<bar>"

definition line_points :: "real option list" where
  "line_points = [Some 0, Some 3, None, Some 2]"

definition line_matrix :: "real list list" where
  "line_matrix = [[0, 3, 1, 2], [3, 0, 2, 1], [1, 2, 0, 1], [2, 1, 1, 0]]"

subsection \<open>RouteOptimizer: the rules as relations\<close>

text \<open>
  The rules of section 4.6 of the specification once more, now as relations that say
  which choice and which tour the rules allow, without computing them. They are compared
  with \<open>optimize\<close> below.
\<close>

text \<open>
  Modelled from the spec: the deterministic tie-break of \<open>RouteOptimizer\<close> (no source in
  the repository), as a condition on the chosen candidate: no candidate costs less, and
  among the candidates of equal cost none has a lower index.
\<close>

definition lowest_choice :: "(nat \<Rightarrow> real) \<Rightarrow> nat set \<Rightarrow> nat \<Rightarrow> bool" where
  "lowest_choice cost candidates k =
     (k \<in> candidates \<and> (\<forall>j\<in>candidates. cost k < cost j \<or> (cost k = cost j \<and> k \<le> j)))"

text \<open>
  Modelled from the spec: the nearest-neighbour construction of \<open>RouteOptimizer\<close> (no
  source in the repository), as the paths it allows: from the current stop the next stop
  is the unvisited index the tie-break selects, until no index is left.
\<close>

inductive nn_path :: "real list list \<Rightarrow> nat \<Rightarrow> nat set \<Rightarrow> nat list \<Rightarrow> bool" for m where
  nn_done: "nn_path m cur {} []"
| nn_step: "lowest_choice (\<lambda>j. m ! cur ! j) unvisited k \<Longrightarrow>
            nn_path m k (unvisited - {k}) rest \<Longrightarrow>
            nn_path m cur unvisited (k # rest)"

text \<open>
  Modelled from the spec: an initial tour of \<open>RouteOptimizer\<close> (no source in the
  repository) from the start \<open>s\<close>: the start, then a nearest-neighbour path through all
  other indices of the matrix.
\<close>

definition nn_tour :: "real list list \<Rightarrow> nat \<Rightarrow> nat list \<Rightarrow> bool" where
  "nn_tour m s t =
     (s < length m \<and> (\<exists>rest. t = s # rest \<and> nn_path m s ({0..<length m} - {s}) rest))"

text \<open>
  Modelled from the spec: the start of \<open>RouteOptimizer\<close> (no source in the repository):
  the given start index, or without one a point whose nearest-neighbour tour is no longer
  than that of any other point, the lower index among equals.
\<close>

definition start_choice :: "real list list \<Rightarrow> nat option \<Rightarrow> nat \<Rightarrow> bool" where
  "start_choice m startIndex s =
     (case startIndex of
        Some x \<Rightarrow> s = x
      | None \<Rightarrow>
          s < length m
          \<and> (\<forall>x<length m. \<forall>ts tx. nn_tour m s ts \<longrightarrow> nn_tour m x tx \<longrightarrow>
                tour_length m ts < tour_length m tx
                \<or> (tour_length m ts = tour_length m tx \<and> s \<le> x)))"

text \<open>
  Modelled from the spec: a 2-opt swap of \<open>RouteOptimizer\<close> (no source in the repository)
  that reduces the total distance: the reversal of the positions \<open>i\<close> to \<open>j\<close>, between
  the first and the last stop, gives a shorter path.
\<close>

definition improving_swap :: "real list list \<Rightarrow> nat list \<Rightarrow> nat \<Rightarrow> nat \<Rightarrow> bool" where
  "improving_swap m t i j =
     (1 \<le> i \<and> i < j \<and> Suc j < length t
      \<and> tour_length m (reverse_segment t i j) < tour_length m t)"

text \<open>
  Modelled from the spec: the swap a 2-opt iteration of \<open>RouteOptimizer\<close> (no source in
  the repository) applies: among the improving swaps the one with the lowest \<open>i\<close>, and
  for that \<open>i\<close> the lowest \<open>j\<close>.
\<close>

definition first_swap :: "real list list \<Rightarrow> nat list \<Rightarrow> nat \<Rightarrow> nat \<Rightarrow> bool" where
  "first_swap m t i j =
     (improving_swap m t i j
      \<and> (\<forall>i' j'. improving_swap m t i' j' \<longrightarrow> i < i' \<or> (i = i' \<and> j \<le> j')))"

text \<open>
  Modelled from the spec: the 2-opt improvement of \<open>RouteOptimizer\<close> (no source in the
  repository), as the runs it allows within a budget of \<open>b\<close> iterations: the run ends
  when the budget is used up or when no swap reduces the total distance; otherwise the
  first improving swap is applied and the run goes on with one iteration less.
\<close>

inductive two_opt_run :: "real list list \<Rightarrow> nat \<Rightarrow> nat list \<Rightarrow> nat list \<Rightarrow> bool" for m where
  out_of_budget: "two_opt_run m 0 t t"
| local_optimum: "\<forall>i j. \<not> improving_swap m t i j \<Longrightarrow> two_opt_run m b t t"
| swap: "first_swap m t i j \<Longrightarrow> two_opt_run m b (reverse_segment t i j) t' \<Longrightarrow>
         two_opt_run m (Suc b) t t'"

text \<open>
  Modelled from the spec: the tours the rules of \<open>RouteOptimizer\<close> (no source in the
  repository) allow for a matrix, an optional start index and an iteration budget: a
  2-opt run from a nearest-neighbour tour from the chosen start.
\<close>

definition optimized :: "nat \<Rightarrow> real list list \<Rightarrow> nat option \<Rightarrow> nat list \<Rightarrow> bool" where
  "optimized budget m startIndex tour =
     (\<exists>s t0. start_choice m startIndex s \<and> nn_tour m s t0 \<and> two_opt_run m budget t0 tour)"

text \<open>Sample input: four stops on a line at 0, 1, -2 and 5, where the nearest-neighbour
  tour from the first stop is improved by one 2-opt swap.\<close>

definition detour_matrix :: "real list list" where
  "detour_matrix = build_with line_metric [0, 1, - 2, 5]"

subsection \<open>EntityMatcher\<close>

text \<open>
  Modelled from the spec: a stored entity or a candidate of \<open>EntityMatcher\<close> (no source
  in the repository), as the attributes it carries. An attribute is empty when it is
  absent or the empty string.
\<close>

type_synonym entity = "string \<rightharpoonup> string"

text \<open>
  Modelled from the spec: the emptiness of an attribute, as merge-fill of \<open>EntityMatcher\<close>
  (no source in the repository) reads it.
\<close>

definition is_empty :: "string option \<Rightarrow> bool" where
  "is_empty v = (v = None \<or> v = Some [])"

text \<open>
  Modelled from the spec: merge-fill of \<open>EntityMatcher\<close> (no source in the repository):
  an attribute present on the candidate but empty on the stored entity is copied in; a
  populated attribute of the stored entity is kept.
\<close>

definition merge_fill :: "entity \<Rightarrow> entity \<Rightarrow> entity" where
  "merge_fill stored candidate =
     (\<lambda>a. if is_empty (stored a) \<and> \<not> is_empty (candidate a) then candidate a else stored a)"

text \<open>
  Modelled from the spec: the result \<open>{matched_id, status, score}\<close> of
  \<open>EntityMatcher.resolve\<close> (no source in the repository).
\<close>

datatype match_status = EXACT | FUZZY | AMBIGUOUS | NEW

text \<open>
  Modelled from the spec: the record returned by \<open>EntityMatcher.resolve\<close> (no source in
  the repository).
\<close>

record resolution =
  matched_id :: "nat option"
  status :: match_status
  score :: real

text \<open>
  Modelled from the spec: what \<open>EntityMatcher\<close> (no source in the repository) takes from
  its collaborators: the identity key computed through the Normalizer, the coarse filter
  that bounds the fuzzy candidates, the similarity score, the match threshold (0.85 by
  default) and the near-tie margin (0.05).
\<close>

record matcher =
  identity_key :: "entity \<Rightarrow> string"
  coarse_filter :: "entity \<Rightarrow> entity \<Rightarrow> bool"
  similarity :: "entity \<Rightarrow> entity \<Rightarrow> real"
  threshold :: real
  margin :: real

text \<open>
  Modelled from the spec: the stored entities of one type that \<open>EntityMatcher\<close> (no source
  in the repository) consults, each with its id.
\<close>

type_synonym store = "(nat \<times> entity) list"

text \<open>
  Modelled from the spec: steps 1 and 2 of \<open>EntityMatcher.resolve\<close> (no source in the
  repository): the lookup on the identity key, and the scores of the stored entities that
  pass the coarse filter.
\<close>

definition exact_lookup :: "matcher \<Rightarrow> store \<Rightarrow> entity \<Rightarrow> nat option" where
  "exact_lookup mt st candidate =
     map_option fst (find (\<lambda>(i, e). identity_key mt e = identity_key mt candidate) st)"

text \<open>
  Modelled from the spec: step 2 of \<open>EntityMatcher.resolve\<close> (no source in the
  repository), the bounded candidate set with its scores.
\<close>

definition scored :: "matcher \<Rightarrow> store \<Rightarrow> entity \<Rightarrow> (nat \<times> real) list" where
  "scored mt st candidate =
     map (\<lambda>(i, e). (i, similarity mt candidate e))
         (filter (\<lambda>(i, e). coarse_filter mt candidate e) st)"

text \<open>
  Modelled from the spec: the best score of \<open>EntityMatcher.resolve\<close> (no source in the
  repository), the earlier entry among equals, and whether another entry scores within
  the margin of it.
\<close>

fun best_scored :: "(nat \<times> real) list \<Rightarrow> (nat \<times> real) option" where
  "best_scored [] = None"
| "best_scored ((i, x) # rest) =
     (case best_scored rest of
        None \<Rightarrow> Some (i, x)
      | Some (k, y) \<Rightarrow> if y \<le> x then Some (i, x) else Some (k, y))"

text \<open>
  Modelled from the spec: the near-tie test of \<open>EntityMatcher.resolve\<close> (no source in the
  repository): another entry scores within the margin of the best.
\<close>

definition near_tie :: "real \<Rightarrow> nat \<Rightarrow> real \<Rightarrow> (nat \<times> real) list \<Rightarrow> bool" where
  "near_tie mg i x scores = list_ex (\<lambda>(k, y). k \<noteq> i \<and> x - y \<le> mg) scores"

text \<open>
  Modelled from the spec: the write of merge-fill into the store by \<open>EntityMatcher\<close> (no
  source in the repository): only the matched entity is touched.
\<close>

definition merge_into :: "nat \<Rightarrow> entity \<Rightarrow> store \<Rightarrow> store" where
  "merge_into i candidate st =
     map (\<lambda>(j, e). if j = i then (j, merge_fill e candidate) else (j, e)) st"

text \<open>
  Modelled from the spec: \<open>resolve(candidate, entityType) -> {matched_id, status, score}\<close>
  of \<open>EntityMatcher\<close> (no source in the repository), steps 1 to 5 with the side effect on
  \<open>EXACT\<close> and \<open>FUZZY\<close>. A hit on the identity key is \<open>EXACT\<close> with score 1. Otherwise
  the best score decides: at or above the threshold it is \<open>FUZZY\<close> when no other entry is
  within the margin and \<open>AMBIGUOUS\<close> when one is; below the threshold, or with no entry
  to compare, the candidate is \<open>NEW\<close>. The result is the resolution and the store
  afterwards.
\<close>

definition resolve :: "matcher \<Rightarrow> store \<Rightarrow> entity \<Rightarrow> resolution \<times> store" where
  "resolve mt st candidate =
     (case exact_lookup mt st candidate of
        Some i \<Rightarrow>
          (\<lparr> matched_id = Some i, status = EXACT, score = 1 \<rparr>, merge_into i candidate st)
      | None \<Rightarrow>
          (case best_scored (scored mt st candidate) of
             None \<Rightarrow> (\<lparr> matched_id = None, status = NEW, score = 0 \<rparr>, st)
           | Some (i, x) \<Rightarrow>
               if threshold mt \<le> x then
                 (if near_tie (margin mt) i x (scored mt st candidate)
                  then (\<lparr> matched_id = None, status = AMBIGUOUS, score = x \<rparr>, st)
                  else (\<lparr> matched_id = Some i, status = FUZZY, score = x \<rparr>,
                        merge_into i candidate st))
               else (\<lparr> matched_id = None, status = NEW, score = x \<rparr>, st)))"

text \<open>Sample input: companies keyed by their domain; two companies count as similar
  (with score 0.9) when their names agree; one stored company with a name and a phone
  number, and a candidate of the same name with another phone number and a city.\<close>

definition sample_matcher :: matcher where
  "sample_matcher =
     \<lparr> identity_key = (\<lambda>e. case e ''domain'' of None \<Rightarrow> [] | Some d \<Rightarrow> d),
       coarse_filter = (\<lambda>c e. True),
       similarity = (\<lambda>c e. if c ''name'' = e ''name'' then 9 / 10 else 0),
       threshold = 85 / 100,
       margin = 5 / 100 \<rparr>"

definition sample_store :: store where
  "sample_store =
     [(7, [''name'' \<mapsto> ''techcorp'', ''domain'' \<mapsto> ''techcorp.com'', ''phone'' \<mapsto> ''5551234''])]"

definition sample_candidate :: entity where
  "sample_candidate =
     [''name'' \<mapsto> ''techcorp'', ''phone'' \<mapsto> ''5559999'', ''city'' \<mapsto> ''San Francisco'']"

section \<open>Properties of the front end\<close>

lemma toggleLead_distinct: "distinct s \<Longrightarrow> distinct (toggleLead i s)"
  by (simp add: toggleLead_def set_has_def set_delete_def set_add_def distinct_removeAll)

text \<open>
  Claim C10. \<open>toggleLead\<close> flips the membership of exactly the given id: the id is selected
  afterwards if and only if it was not selected before, every other id keeps its
  membership, and toggling the same id twice gives back the original selection set.
\<close>

theorem toggleLead_flips:
  "(i \<in> set (toggleLead i s) \<longleftrightarrow> i \<notin> set s)
   \<and> (x \<noteq> i \<longrightarrow> (x \<in> set (toggleLead i s) \<longleftrightarrow> x \<in> set s))
   \<and> set (toggleLead i (toggleLead i s)) = set s"
  by (auto simp add: toggleLead_def set_has_def set_delete_def set_add_def)

theorem toggleLead_flips_witness:
  "(2 \<in> set (toggleLead 2 [1, 2, 3]) \<longleftrightarrow> 2 \<notin> set [1, 2, 3 :: int])
   \<and> (3::int) \<noteq> 2
   \<and> (3 \<in> set (toggleLead 2 [1, 2, 3]) \<longleftrightarrow> 3 \<in> set [1, 2, 3 :: int])
   \<and> set (toggleLead 2 (toggleLead 2 [1, 2, 3])) = set [1, 2, 3]
   \<and> toggleLead 2 [1, 2, 3] = [1, 3]
   \<and> toggleLead 2 [1, 3] = [1, 3, 2]"
  using toggleLead_flips [of 2 "[1, 2, 3]" 3]
  by (simp add: toggleLead_def set_has_def set_delete_def set_add_def)

text \<open>
  Claim C8. The route-planning client posts to \<open>/api/routes/plan\<close> a body whose fields
  on the wire are exactly \<open>lead_ids\<close> (the given ids), \<open>start_location\<close> (the given
  value, and no such field when the caller gave none) and \<open>optimize\<close> (the given flag,
  \<open>true\<close> when the caller gave none).
\<close>

theorem planRoute_request_body:
  "url (routesApi_planRoute ids start opt) = ''/api/routes/plan''
   \<and> map_option json_fields (data (routesApi_planRoute ids start opt)) =
       Some ([(''lead_ids'', JArr (map JNum ids))]
             @ (case start of None \<Rightarrow> [] | Some s \<Rightarrow> [(''start_location'', JStr s)])
             @ [(''optimize'', JBool (case opt of None \<Rightarrow> True | Some b \<Rightarrow> b))])"
  by (simp add: routesApi_planRoute_def json_fields_def split: option.splits)

lemma LeadsList_planRoute_request:
  "selected \<noteq> [] \<Longrightarrow>
   requests (LeadsList_planRoute server selected) = [routesApi_planRoute selected None None]"
  by (simp add: LeadsList_planRoute_def Let_def split: axios_result.splits)

lemma LeadsList_planRoute_empty:
  "requests (LeadsList_planRoute server []) = []"
  by (simp add: LeadsList_planRoute_def)

subsection \<open>ManualEntry: validation before the request\<close>

text \<open>
  Claim C7. A submission whose company name or job title is empty is rejected before any
  request: the only effects are the default prevention and the error toast, the form is
  unchanged and no request is issued. A submission with both fields non-empty issues
  exactly one request, the import request carrying the form's fields.
\<close>

theorem handleSubmit_validation_first:
  "(companyName st = [] \<or> jobTitle st = [] \<longrightarrow>
      handleSubmit API_URL server st
        = (st, [PreventDefault, ToastError ''Company name and job title are required''])
      \<and> requests (snd (handleSubmit API_URL server st)) = [])
   \<and> (companyName st \<noteq> [] \<and> jobTitle st \<noteq> [] \<longrightarrow>
      requests (snd (handleSubmit API_URL server st)) = [manual_request API_URL st]
      \<and> url (manual_request API_URL st) = API_URL @ ''/api/import/job/manual'')"
  by (simp add: handleSubmit_def manual_request_def Let_def split: axios_result.splits)

theorem handleSubmit_validation_first_witness:
  "(jobTitle (template_form\<lparr>jobTitle := []\<rparr>) = []
    \<and> requests (snd (handleSubmit ''http://localhost:8000'' server_ok
                       (template_form\<lparr>jobTitle := []\<rparr>))) = []
    \<and> fst (handleSubmit ''http://localhost:8000'' server_ok (template_form\<lparr>jobTitle := []\<rparr>))
        = template_form\<lparr>jobTitle := []\<rparr>)
   \<and> (companyName template_form \<noteq> [] \<and> jobTitle template_form \<noteq> []
    \<and> map url (requests (snd (handleSubmit ''http://localhost:8000'' server_ok template_form)))
        = [''http://localhost:8000/api/import/job/manual''])"
  using handleSubmit_validation_first
          [of "template_form\<lparr>jobTitle := []\<rparr>" "''http://localhost:8000''" server_ok]
        handleSubmit_validation_first
          [of template_form "''http://localhost:8000''" server_ok]
  by (simp add: template_form_def)

subsection \<open>JavaScript strings: splitting and replacing\<close>

lemma js_split_not_Nil: "js_split c s \<noteq> []"
  by (induction s) (auto split: list.splits)

lemma hd_js_split: "hd (js_split c s) = takeWhile (\<lambda>x. x \<noteq> c) s"
  by (induction s) (auto simp add: js_split_not_Nil split: list.splits)

lemma length_js_split: "length (js_split c s) = Suc (length (filter (\<lambda>x. x = c) s))"
proof (induction s)
  case Nil
  then show ?case by simp
next
  case (Cons x xs)
  then show ?case by (cases "js_split c xs") (auto simp add: js_split_not_Nil)
qed

lemma js_split_short: "length (js_split c s) < 2 \<longleftrightarrow> c \<notin> set s"
proof -
  have "length (filter (\<lambda>x. x = c) s) = 0 \<longleftrightarrow> c \<notin> set s"
    by (auto simp add: filter_empty_conv)
  then show ?thesis by (simp add: length_js_split less_Suc_eq)
qed

lemma js_replace_absent:
  "c \<notin> set s \<Longrightarrow> c \<in> set pat \<Longrightarrow> js_replace pat rep s = s"
proof (induction s)
  case Nil
  then show ?case by auto
next
  case (Cons x xs)
  have "\<not> prefix pat (x # xs)"
  proof
    assume "prefix pat (x # xs)"
    then have "set pat \<subseteq> set (x # xs)" by (rule set_mono_prefix)
    with Cons.prems show False by auto
  qed
  with Cons show ?case by simp
qed

lemma js_replace_at_start:
  "pat \<noteq> [] \<Longrightarrow> js_replace pat rep (pat @ s) = rep @ s"
  by (cases pat) auto

lemma takeWhile_until:
  "c \<notin> set h \<Longrightarrow> takeWhile (\<lambda>x. x \<noteq> c) (h @ c # p) = h"
  by (induction h) auto

lemma takeWhile_all:
  "c \<notin> set h \<Longrightarrow> takeWhile (\<lambda>x. x \<noteq> c) h = h"
  by (induction h) auto

text \<open>A pattern \<open>q//\<close> with a slash-free \<open>q\<close> can only start a text \<open>h/p\<close> with a
  slash-free \<open>h\<close> when \<open>q\<close> is \<open>h\<close>.\<close>

lemma prefix_slashes:
  assumes "prefix (q @ ''//'') (h @ CHR ''/'' # p)"
    and "CHR ''/'' \<notin> set h" and "CHR ''/'' \<notin> set q"
  shows "q = h"
proof -
  from assms(1) obtain r where eq: "h @ CHR ''/'' # p = (q @ ''//'') @ r"
    by (auto simp add: prefix_def)
  have "takeWhile (\<lambda>x. x \<noteq> CHR ''/'') (h @ CHR ''/'' # p) = h"
    using assms(2) by (rule takeWhile_until)
  moreover have "takeWhile (\<lambda>x. x \<noteq> CHR ''/'') (q @ CHR ''/'' # CHR ''/'' # r) = q"
    using assms(3) by (rule takeWhile_until)
  ultimately show ?thesis using eq by simp
qed

lemma js_replace_past_host:
  assumes "CHR ''/'' \<notin> set h" and "CHR ''/'' \<notin> set q" and "q \<noteq> []"
    and "\<not> suffix q h"
  shows "js_replace (q @ ''//'') rep (h @ CHR ''/'' # p)
         = h @ CHR ''/'' # js_replace (q @ ''//'') rep p"
  using assms(1,4)
proof (induction h)
  case Nil
  have "\<not> prefix (q @ ''//'') (CHR ''/'' # p)"
    using assms(2,3) by (cases q) auto
  then show ?case by simp
next
  case (Cons x h)
  have np: "\<not> prefix (q @ ''//'') ((x # h) @ CHR ''/'' # p)"
  proof
    assume "prefix (q @ ''//'') ((x # h) @ CHR ''/'' # p)"
    then have "q = x # h" using Cons.prems(1) assms(2) by (rule prefix_slashes)
    with Cons.prems(2) show False by simp
  qed
  have "CHR ''/'' \<notin> set h" using Cons.prems(1) by simp
  moreover have "\<not> suffix q h" using Cons.prems(2) by (auto simp add: suffix_Cons)
  ultimately have "js_replace (q @ ''//'') rep (h @ CHR ''/'' # p)
         = h @ CHR ''/'' # js_replace (q @ ''//'') rep p" by (rule Cons.IH)
  with np show ?case by simp
qed

lemma js_replace_keeps_host:
  assumes "CHR ''/'' \<notin> set h" and "CHR ''/'' \<notin> set q" and "q \<noteq> []"
    and "\<not> suffix q h" and "rest = [] \<or> prefix ''/'' rest"
  shows "\<exists>rest'. js_replace (q @ ''//'') rep (h @ rest) = h @ rest'
                \<and> (rest' = [] \<or> prefix ''/'' rest')"
proof (cases rest)
  case Nil
  have "js_replace (q @ ''//'') rep h = h"
    using assms(1) by (rule js_replace_absent) simp
  with Nil show ?thesis by auto
next
  case (Cons a p)
  with assms(5) have a: "a = CHR ''/''" by simp
  have "js_replace (q @ ''//'') rep (h @ CHR ''/'' # p)
         = h @ CHR ''/'' # js_replace (q @ ''//'') rep p"
    using assms(1-4) by (rule js_replace_past_host)
  with Cons a show ?thesis by auto
qed

lemma emailDomain_takeWhile:
  "emailDomain w = takeWhile (\<lambda>x. x \<noteq> CHR ''/'')
                     (js_replace ''https://'' [] (js_replace ''http://'' [] w))"
  by (simp add: emailDomain_def hd_js_split)

lemma emailDomain_no_slash: "CHR ''/'' \<notin> set (emailDomain w)"
  unfolding emailDomain_takeWhile
  by (auto dest: set_takeWhileD)

lemma takeWhile_host:
  "CHR ''/'' \<notin> set h \<Longrightarrow> rest = [] \<or> prefix ''/'' rest \<Longrightarrow>
   takeWhile (\<lambda>x. x \<noteq> CHR ''/'') (h @ rest) = h"
  by (cases rest) (auto simp add: takeWhile_until takeWhile_all)

lemma no_colon_suffix:
  "\<not> suffix '':'' h \<Longrightarrow> \<not> suffix (q @ '':'') h"
  by (auto simp add: suffix_def)

subsection \<open>The domain of the suggested addresses\<close>

text \<open>
  Claim C6, as stated, fails: the domain of the suggested addresses is neither lowercased
  nor freed of a \<open>www.\<close> prefix. For the website \<open>https://www.Example.com/jobs\<close> it is
  \<open>www.Example.com\<close>.
\<close>

theorem emailDomain_keeps_www_and_case:
  "emailDomain ''https://www.Example.com/jobs'' = ''www.Example.com''
   \<and> prefix ''www.'' (emailDomain ''https://www.Example.com/jobs'')
   \<and> toLowerCase_latin1 (emailDomain ''https://www.Example.com/jobs'')
       \<noteq> emailDomain ''https://www.Example.com/jobs''"
  by code_simp

text \<open>
  Claim C6, amended. For a website of the form \<open>[http://|https://]host[/path]\<close>, where
  \<open>host\<close> has no slash and does not end with a colon, the domain of the suggested
  addresses is \<open>host\<close> exactly as typed: the protocol and the path are removed, the
  letter case and a \<open>www.\<close> prefix are kept.
\<close>

theorem emailDomain_host:
  assumes "proto = [] \<or> proto = ''http://'' \<or> proto = ''https://''"
    and "CHR ''/'' \<notin> set host" and "\<not> suffix '':'' host"
    and "rest = [] \<or> prefix ''/'' rest"
  shows "emailDomain (proto @ host @ rest) = host"
proof -
  have nh: "\<not> suffix ''http:'' host" using no_colon_suffix [OF assms(3), of "''http''"] by simp
  have ns: "\<not> suffix ''https:'' host" using no_colon_suffix [OF assms(3), of "''https''"] by simp
  have step_http: "\<And>r. r = [] \<or> prefix ''/'' r \<Longrightarrow>
      \<exists>r'. js_replace ''http://'' [] (host @ r) = host @ r' \<and> (r' = [] \<or> prefix ''/'' r')"
    using js_replace_keeps_host [of host "''http:''" _ "[]"] assms(2) nh by simp
  have step_https: "\<And>r. r = [] \<or> prefix ''/'' r \<Longrightarrow>
      \<exists>r'. js_replace ''https://'' [] (host @ r) = host @ r' \<and> (r' = [] \<or> prefix ''/'' r')"
    using js_replace_keeps_host [of host "''https:''" _ "[]"] assms(2) ns by simp
  from assms(1) consider "proto = []" | "proto = ''http://''" | "proto = ''https://''" by blast
  then show ?thesis
  proof cases
    case 1
    obtain r1 where r1: "js_replace ''http://'' [] (host @ rest) = host @ r1"
      "r1 = [] \<or> prefix ''/'' r1" using step_http [OF assms(4)] by blast
    obtain r2 where r2: "js_replace ''https://'' [] (host @ r1) = host @ r2"
      "r2 = [] \<or> prefix ''/'' r2" using step_https [OF r1(2)] by blast
    show ?thesis using 1 r1 r2 assms(2) by (simp add: emailDomain_takeWhile takeWhile_host)
  next
    case 2
    have a: "js_replace ''http://'' [] (''http://'' @ host @ rest) = host @ rest"
      using js_replace_at_start [of "''http://''" "[]" "host @ rest"] by simp
    obtain r2 where r2: "js_replace ''https://'' [] (host @ rest) = host @ r2"
      "r2 = [] \<or> prefix ''/'' r2" using step_https [OF assms(4)] by blast
    show ?thesis using 2 a r2 assms(2) by (simp add: emailDomain_takeWhile takeWhile_host)
  next
    case 3
    obtain r1 where r1: "js_replace ''http://'' [] (host @ rest) = host @ r1"
      "r1 = [] \<or> prefix ''/'' r1" using step_http [OF assms(4)] by blast
    have a: "js_replace ''http://'' [] (''https://'' @ host @ rest) = ''https://'' @ host @ r1"
      using r1(1) by simp
    have b: "js_replace ''https://'' [] (''https://'' @ host @ r1) = host @ r1"
      using js_replace_at_start [of "''https://''" "[]" "host @ r1"] by simp
    show ?thesis using 3 a b r1(2) assms(2) by (simp add: emailDomain_takeWhile takeWhile_host)
  qed
qed

theorem emailDomain_host_witness:
  "(''https://'' = [] \<or> ''https://'' = ''http://'' \<or> ''https://'' = ''https://'')
   \<and> CHR ''/'' \<notin> set ''www.Example.com'' \<and> \<not> suffix '':'' ''www.Example.com''
   \<and> (''/jobs'' = [] \<or> prefix ''/'' ''/jobs'')
   \<and> emailDomain (''https://'' @ ''www.Example.com'' @ ''/jobs'') = ''www.Example.com''"
proof -
  have a: "''https://'' = [] \<or> ''https://'' = ''http://'' \<or> ''https://'' = ''https://''" by simp
  have b: "CHR ''/'' \<notin> set ''www.Example.com''" by simp
  have c: "\<not> suffix '':'' ''www.Example.com''" by code_simp
  have d: "''/jobs'' = [] \<or> prefix ''/'' ''/jobs''" by simp
  show ?thesis using a b c d emailDomain_host [OF a b c d] by blast
qed

subsection \<open>The suggested addresses\<close>

lemma js_first_Some: "s \<noteq> [] \<Longrightarrow> js_first s = Some (take 1 s)"
  by (cases s) (simp_all add: js_first_def)

text \<open>
  Claim C9, as stated, fails in three ways. The name \<open>John Smith\<close> followed by a space
  has two whitespace-separated tokens, yet its last piece after \<open>split(' ')\<close> is empty
  and no suggestion is set. The website \<open>xhttp://techcorp.com\<close> has no leading protocol,
  and cut at the first slash it would give \<open>xhttp:\<close>; the suggestions use
  \<open>xtechcorp.com\<close>, since the first occurrence of \<open>http://\<close> is removed wherever it
  is. A rejected request leaves the suggestions unset.
\<close>

theorem suggestEmails_counterexample:
  "whitespace_tokens ''John Smith '' = [''John'', ''Smith'']
   \<and> companyWebsite (template_form\<lparr>contactName := ''John Smith ''\<rparr>) \<noteq> []
   \<and> emailSuggestions (fst (suggestEmails toLowerCase_latin1 ''http://localhost:8000'' server_ok
        (template_form\<lparr>contactName := ''John Smith ''\<rparr>))) = []
   \<and> leading_protocol_removed ''xhttp://techcorp.com'' = ''xhttp:''
   \<and> emailSuggestions (fst (suggestEmails toLowerCase_latin1 ''http://localhost:8000'' server_ok
        (template_form\<lparr>companyWebsite := ''xhttp://techcorp.com''\<rparr>)))
      = [''john.smith@xtechcorp.com'', ''johnsmith@xtechcorp.com'', ''jsmith@xtechcorp.com'',
         ''john@xtechcorp.com'', ''johns@xtechcorp.com'', ''j.smith@xtechcorp.com'']
   \<and> emailSuggestions (fst (suggestEmails toLowerCase_latin1 ''http://localhost:8000''
        server_down template_form)) = []"
  by code_simp

text \<open>
  Claim C9, amended. When the name and the website are non-empty, the name split at single
  spaces has at least two pieces of which the first and the last are non-empty, and the
  request to the suggestion endpoint succeeds, \<open>suggestEmails\<close> sets exactly six
  suggestions \<open>local@domain\<close>: the domain is the website with the first occurrence of
  \<open>http://\<close> and then the first occurrence of \<open>https://\<close> removed, cut at the first
  slash; the local parts are built from \<open>f\<close> and \<open>l\<close>, the results of \<open>toLowerCase\<close>
  on the first and the last piece, and from \<open>f0\<close> and \<open>l0\<close>, the results of
  \<open>toLowerCase\<close> on the first code unit of the first and of the last piece: \<open>f.l\<close>,
  \<open>fl\<close>, \<open>f0l\<close>, \<open>f\<close>, \<open>fl0\<close> and \<open>f0.l\<close>. This holds whatever function
  \<open>toLowerCase\<close> is. An empty name, an empty website or a name without a space leaves
  the form unchanged and issues no request.
\<close>

theorem suggestEmails_six_patterns:
  assumes names: "names = js_split CHR '' '' (contactName st)"
    and f: "f = toLowerCase (hd names)" and l: "l = toLowerCase (last names)"
    and f0: "f0 = toLowerCase (take 1 (hd names))"
    and l0: "l0 = toLowerCase (take 1 (last names))"
    and dmn: "dmn = takeWhile (\<lambda>c. c \<noteq> CHR ''/'')
                     (js_replace ''https://'' [] (js_replace ''http://'' [] (companyWebsite st)))"
  shows "(contactName st \<noteq> [] \<and> companyWebsite st \<noteq> [] \<and> 2 \<le> length names
          \<and> hd names \<noteq> [] \<and> last names \<noteq> []
          \<and> server (suggest_request API_URL (hd names) (last names)) = Resolved d
          \<longrightarrow> emailSuggestions (fst (suggestEmails toLowerCase API_URL server st))
                = [f @ ''.'' @ l @ ''@'' @ dmn,
                   f @ l @ ''@'' @ dmn,
                   f0 @ l @ ''@'' @ dmn,
                   f @ ''@'' @ dmn,
                   f @ l0 @ ''@'' @ dmn,
                   f0 @ ''.'' @ l @ ''@'' @ dmn])
       \<and> (contactName st = [] \<or> companyWebsite st = [] \<or> CHR '' '' \<notin> set (contactName st)
          \<longrightarrow> fst (suggestEmails toLowerCase API_URL server st) = st
              \<and> requests (snd (suggestEmails toLowerCase API_URL server st)) = [])"
proof (intro conjI impI)
  assume a: "contactName st \<noteq> [] \<and> companyWebsite st \<noteq> [] \<and> 2 \<le> length names
          \<and> hd names \<noteq> [] \<and> last names \<noteq> []
          \<and> server (suggest_request API_URL (hd names) (last names)) = Resolved d"
  then have len: "\<not> length (js_split CHR '' '' (contactName st)) < 2"
    using names by simp
  have i0: "js_first (hd (js_split CHR '' '' (contactName st))) = Some (take 1 (hd names))"
    using a names by (simp add: js_first_Some)
  have j0: "js_first (last (js_split CHR '' '' (contactName st))) = Some (take 1 (last names))"
    using a names by (simp add: js_first_Some)
  have srv: "server (suggest_request API_URL (hd (js_split CHR '' '' (contactName st)))
                       (last (js_split CHR '' '' (contactName st)))) = Resolved d"
    using a names by simp
  have "suggestEmails toLowerCase API_URL server st
        = (st\<lparr> emailSuggestions :=
               patterns toLowerCase (hd names) (take 1 (hd names)) (last names)
                 (take 1 (last names)) (emailDomain (companyWebsite st)) \<rparr>,
           [Post (suggest_request API_URL (hd names) (last names))])"
    using a len i0 j0 srv names by (simp add: suggestEmails_def Let_def)
  then show "emailSuggestions (fst (suggestEmails toLowerCase API_URL server st))
                = [f @ ''.'' @ l @ ''@'' @ dmn,
                   f @ l @ ''@'' @ dmn,
                   f0 @ l @ ''@'' @ dmn,
                   f @ ''@'' @ dmn,
                   f @ l0 @ ''@'' @ dmn,
                   f0 @ ''.'' @ l @ ''@'' @ dmn]"
    using f l f0 l0 dmn by (simp add: patterns_def emailDomain_takeWhile)
next
  assume b: "contactName st = [] \<or> companyWebsite st = [] \<or> CHR '' '' \<notin> set (contactName st)"
  then have "contactName st = [] \<or> companyWebsite st = []
             \<or> length (js_split CHR '' '' (contactName st)) < 2"
    by (simp add: js_split_short)
  then show "fst (suggestEmails toLowerCase API_URL server st) = st"
    by (auto simp add: suggestEmails_def Let_def)
next
  assume b: "contactName st = [] \<or> companyWebsite st = [] \<or> CHR '' '' \<notin> set (contactName st)"
  then have "contactName st = [] \<or> companyWebsite st = []
             \<or> length (js_split CHR '' '' (contactName st)) < 2"
    by (simp add: js_split_short)
  then show "requests (snd (suggestEmails toLowerCase API_URL server st)) = []"
    by (auto simp add: suggestEmails_def Let_def)
qed

theorem suggestEmails_six_patterns_witness:
  "contactName template_form \<noteq> [] \<and> companyWebsite template_form \<noteq> []
   \<and> 2 \<le> length (js_split CHR '' '' (contactName template_form))
   \<and> server_ok (suggest_request ''http://localhost:8000'' ''John'' ''Smith'') = Resolved [(''lead_id'', JNum 1)]
   \<and> emailSuggestions (fst (suggestEmails toLowerCase_latin1 ''http://localhost:8000''
        server_ok template_form))
      = [''john.smith@techcorp.com'', ''johnsmith@techcorp.com'', ''jsmith@techcorp.com'',
         ''john@techcorp.com'', ''johns@techcorp.com'', ''j.smith@techcorp.com'']
   \<and> CHR '' '' \<notin> set (contactName (template_form\<lparr>contactName := ''John''\<rparr>))
   \<and> fst (suggestEmails toLowerCase_latin1 ''http://localhost:8000'' server_ok
        (template_form\<lparr>contactName := ''John''\<rparr>))
      = template_form\<lparr>contactName := ''John''\<rparr>"
proof -
  have cn: "contactName template_form = ''John Smith''"
    and cw: "companyWebsite template_form = ''https://techcorp.com''"
    by (simp_all add: template_form_def)
  have n: "[''John'', ''Smith''] = js_split CHR '' '' (contactName template_form)"
    unfolding cn by simp
  have f: "''john'' = toLowerCase_latin1 (hd [''John'', ''Smith''])" by code_simp
  have l: "''smith'' = toLowerCase_latin1 (last [''John'', ''Smith''])" by code_simp
  have f0: "''j'' = toLowerCase_latin1 (take 1 (hd [''John'', ''Smith'']))" by code_simp
  have l0: "''s'' = toLowerCase_latin1 (take 1 (last [''John'', ''Smith'']))" by code_simp
  have d: "''techcorp.com'' = takeWhile (\<lambda>c. c \<noteq> CHR ''/'')
             (js_replace ''https://'' [] (js_replace ''http://'' [] (companyWebsite template_form)))"
    unfolding cw by simp
  have srv: "server_ok (suggest_request ''http://localhost:8000'' ''John'' ''Smith'')
             = Resolved [(''lead_id'', JNum 1)]"
    by (simp add: server_ok_def)
  have hyp: "contactName template_form \<noteq> [] \<and> companyWebsite template_form \<noteq> []
      \<and> 2 \<le> length [''John'', ''Smith''] \<and> hd [''John'', ''Smith''] \<noteq> []
      \<and> last [''John'', ''Smith''] \<noteq> []
      \<and> server_ok (suggest_request ''http://localhost:8000'' (hd [''John'', ''Smith''])
             (last [''John'', ''Smith''])) = Resolved [(''lead_id'', JNum 1)]"
    using srv unfolding cn cw by simp
  have pos: "emailSuggestions (fst (suggestEmails toLowerCase_latin1 ''http://localhost:8000''
               server_ok template_form))
      = [''john'' @ ''.'' @ ''smith'' @ ''@'' @ ''techcorp.com'',
         ''john'' @ ''smith'' @ ''@'' @ ''techcorp.com'',
         ''j'' @ ''smith'' @ ''@'' @ ''techcorp.com'',
         ''john'' @ ''@'' @ ''techcorp.com'',
         ''john'' @ ''s'' @ ''@'' @ ''techcorp.com'',
         ''j'' @ ''.'' @ ''smith'' @ ''@'' @ ''techcorp.com'']"
    using suggestEmails_six_patterns [OF n f l f0 l0 d, of server_ok "''http://localhost:8000''"
            "[(''lead_id'', JNum 1)]"] hyp
    by blast
  let ?one = "template_form\<lparr>contactName := ''John''\<rparr>"
  have ns: "CHR '' '' \<notin> set (contactName ?one)" by simp
  have neg: "fst (suggestEmails toLowerCase_latin1 ''http://localhost:8000'' server_ok ?one) = ?one"
    using suggestEmails_six_patterns [OF refl refl refl refl refl refl, of ?one server_ok
            "''http://localhost:8000''" "[]" toLowerCase_latin1] ns
    by blast
  have len: "2 \<le> length (js_split CHR '' '' (contactName template_form))"
    unfolding n [symmetric] by simp
  show ?thesis using hyp len srv pos neg ns by simp
qed

section \<open>Properties of the modelled back end\<close>

subsection \<open>The tie-break and the nearest-neighbour construction\<close>

lemma lowest_cost_index_None: "lowest_cost_index f js = None \<longleftrightarrow> js = []"
  by (cases js) (auto split: option.splits)

lemma lowest_cost_index_least:
  "lowest_cost_index f js = Some k \<Longrightarrow>
   k \<in> set js \<and> (\<forall>j\<in>set js. f k < f j \<or> (f k = f j \<and> k \<le> j))"
proof (induction js arbitrary: k)
  case Nil
  then show ?case by simp
next
  case (Cons j js)
  show ?case
  proof (cases "lowest_cost_index f js")
    case None
    then have "js = []" by (simp add: lowest_cost_index_None)
    with Cons.prems show ?thesis by simp
  next
    case (Some k0)
    then have ih: "k0 \<in> set js" "\<forall>i\<in>set js. f k0 < f i \<or> (f k0 = f i \<and> k0 \<le> i)"
      using Cons.IH by blast+
    show ?thesis
    proof (cases "f j < f k0 \<or> (f j = f k0 \<and> j < k0)")
      case True
      then have "k = j" using Cons.prems Some by (auto split: if_splits)
      moreover have "\<forall>i\<in>set js. f j < f i \<or> (f j = f i \<and> j \<le> i)"
        using ih(2) True by force
      ultimately show ?thesis by simp
    next
      case False
      then have "k = k0" using Cons.prems Some by (auto split: if_splits)
      moreover have "f k0 < f j \<or> (f k0 = f j \<and> k0 \<le> j)" using False by force
      ultimately show ?thesis using ih by simp
    qed
  qed
qed

lemma lowest_cost_index_iff:
  "lowest_cost_index f js = Some k \<longleftrightarrow>
   k \<in> set js \<and> (\<forall>j\<in>set js. f k < f j \<or> (f k = f j \<and> k \<le> j))"
proof
  assume "lowest_cost_index f js = Some k"
  then show "k \<in> set js \<and> (\<forall>j\<in>set js. f k < f j \<or> (f k = f j \<and> k \<le> j))"
    by (rule lowest_cost_index_least)
next
  assume r: "k \<in> set js \<and> (\<forall>j\<in>set js. f k < f j \<or> (f k = f j \<and> k \<le> j))"
  then have "js \<noteq> []" by auto
  then obtain k0 where k0: "lowest_cost_index f js = Some k0"
    using lowest_cost_index_None [of f js] by (cases "lowest_cost_index f js") auto
  then have l: "k0 \<in> set js" "\<forall>j\<in>set js. f k0 < f j \<or> (f k0 = f j \<and> k0 \<le> j)"
    using lowest_cost_index_least by blast+
  from r l(1) have "f k < f k0 \<or> (f k = f k0 \<and> k \<le> k0)" by blast
  moreover from l(2) r have "f k0 < f k \<or> (f k0 = f k \<and> k0 \<le> k)" by blast
  ultimately have "k = k0" by auto
  with k0 show "lowest_cost_index f js = Some k" by simp
qed

lemma nn_visit_mset:
  "length unvisited \<le> n \<Longrightarrow> mset (nn_visit n m cur unvisited) = mset unvisited"
proof (induction n arbitrary: cur unvisited)
  case 0
  then show ?case by simp
next
  case (Suc n)
  show ?case
  proof (cases "nearest m cur unvisited")
    case None
    then have "unvisited = []" by (simp add: nearest_def lowest_cost_index_None)
    with None show ?thesis by simp
  next
    case (Some k)
    then have k: "k \<in> set unvisited"
      using lowest_cost_index_least [of "\<lambda>j. m ! cur ! j" unvisited k] by (simp add: nearest_def)
    then have "length (remove1 k unvisited) \<le> n"
      using Suc.prems by (simp add: length_remove1)
    then have "mset (nn_visit n m k (remove1 k unvisited)) = mset (remove1 k unvisited)"
      by (rule Suc.IH)
    with Some k show ?thesis by simp
  qed
qed

lemma nearest_neighbor_mset:
  assumes "s < length m"
  shows "mset (nearest_neighbor m s) = mset [0..<length m]"
proof -
  have s: "s \<in> set [0..<length m]" using assms by simp
  have "length (remove1 s [0..<length m]) \<le> length m - 1"
    using s by (simp add: length_remove1)
  then have "mset (nn_visit (length m - 1) m s (remove1 s [0..<length m]))
             = mset (remove1 s [0..<length m])"
    by (rule nn_visit_mset)
  then show ?thesis using s unfolding nearest_neighbor_def by simp
qed

lemma reverse_segment_mset:
  assumes "i \<le> j"
  shows "mset (reverse_segment tour i j) = mset tour"
proof -
  have "drop (Suc j) tour = drop (Suc j - i) (drop i tour)" using assms by simp
  then have "take (Suc j - i) (drop i tour) @ drop (Suc j) tour = drop i tour"
    by (simp only: append_take_drop_id)
  then have "mset (take (Suc j - i) (drop i tour)) + mset (drop (Suc j) tour) = mset (drop i tour)"
    by (metis mset_append)
  moreover have "mset (take i tour) + mset (drop i tour) = mset tour"
    by (metis mset_append append_take_drop_id)
  ultimately show ?thesis
    by (simp add: reverse_segment_def)
qed

lemma swap_positions_ordered: "(i, j) \<in> set (swap_positions n) \<Longrightarrow> i < j"
  by (auto simp add: swap_positions_def)

lemma find_Some_holds: "find P xs = Some x \<Longrightarrow> P x \<and> x \<in> set xs"
  by (induction xs) (auto split: if_splits)

lemma first_improvement_ordered:
  assumes "first_improvement m tour = Some (i, j)"
  shows "i < j"
proof -
  have "(i, j) \<in> set (swap_positions (length tour))"
    using assms find_Some_holds unfolding first_improvement_def by fast
  then show ?thesis by (rule swap_positions_ordered)
qed

lemma first_improvement_shorter:
  assumes "first_improvement m tour = Some (i, j)"
  shows "tour_length m (reverse_segment tour i j) < tour_length m tour"
proof -
  have "(\<lambda>(i, j). tour_length m (reverse_segment tour i j) < tour_length m tour) (i, j)"
    using assms find_Some_holds unfolding first_improvement_def by fast
  then show ?thesis by simp
qed

lemma two_opt_mset: "mset (two_opt budget m tour) = mset tour"
proof (induction budget arbitrary: tour)
  case 0
  then show ?case by simp
next
  case (Suc budget)
  show ?case
  proof (cases "first_improvement m tour")
    case None
    then show ?thesis by simp
  next
    case (Some ij)
    obtain i j where ij: "ij = (i, j)" by (cases ij)
    with Some have "i < j" using first_improvement_ordered by blast
    then have "mset (reverse_segment tour i j) = mset tour"
      by (simp add: reverse_segment_mset)
    with Some ij Suc.IH [of "reverse_segment tour i j"] show ?thesis by simp
  qed
qed

lemma two_opt_not_longer: "tour_length m (two_opt budget m tour) \<le> tour_length m tour"
proof (induction budget arbitrary: tour)
  case 0
  then show ?case by simp
next
  case (Suc budget)
  show ?case
  proof (cases "first_improvement m tour")
    case None
    then show ?thesis by simp
  next
    case (Some ij)
    obtain i j where ij: "ij = (i, j)" by (cases ij)
    with Some have "tour_length m (reverse_segment tour i j) < tour_length m tour"
      using first_improvement_shorter by blast
    with Some ij Suc.IH [of "reverse_segment tour i j"] show ?thesis by simp
  qed
qed

lemma best_start_in_range: "best_start m = Some s \<Longrightarrow> s < length m"
  using lowest_cost_index_least [of _ "[0..<length m]" s]
  by (auto simp add: best_start_def)

lemma best_start_Some: "length m \<noteq> 0 \<Longrightarrow> \<exists>s. best_start m = Some s"
  by (cases "best_start m") (auto simp add: best_start_def lowest_cost_index_None)

lemma optimize_mset:
  assumes "optimize budget m startIndex = Inr tour"
  shows "mset tour = mset [0..<length m]"
proof (cases "length m = 0")
  case True
  with assms show ?thesis by (auto simp add: optimize_def split: if_splits)
next
  case False
  from assms have sq: "square m" by (auto simp add: optimize_def split: if_splits)
  show ?thesis
  proof (cases startIndex)
    case None
    obtain s where s: "best_start m = Some s" using best_start_Some [OF False] by blast
    then have "s < length m" by (rule best_start_in_range)
    then have "mset (two_opt budget m (nearest_neighbor m s)) = mset [0..<length m]"
      by (simp add: two_opt_mset nearest_neighbor_mset)
    with assms None s sq False show ?thesis by (simp add: optimize_def)
  next
    case (Some s)
    with assms sq False have lt: "s < length m" and t: "tour = two_opt budget m (nearest_neighbor m s)"
      by (auto simp add: optimize_def split: if_splits)
    then show ?thesis by (simp add: two_opt_mset nearest_neighbor_mset)
  qed
qed

lemma optimize_total:
  assumes "square m" and "startIndex = None \<or> (\<exists>s. startIndex = Some s \<and> s < length m)"
  shows "\<exists>tour. optimize budget m startIndex = Inr tour"
  using assms by (auto simp add: optimize_def split: option.splits)

lemma build_with_square: "square (build_with metric points)"
  by (simp add: square_def build_with_def list_all_iff)

lemma length_build_with: "length (build_with metric points) = length points"
  by (simp add: build_with_def)

lemma distinct_geocoded: "distinct (geocoded points)"
  by (simp add: geocoded_def)

lemma map_nth_mset:
  assumes "mset tour = mset [0..<length valid]"
  shows "mset (map (\<lambda>k. valid ! k) tour) = mset valid"
proof -
  have "mset (map (\<lambda>k. valid ! k) tour) = image_mset (\<lambda>k. valid ! k) (mset tour)" by simp
  also have "\<dots> = mset (map (\<lambda>k. valid ! k) [0..<length valid])" using assms by simp
  also have "\<dots> = mset valid" by (simp add: map_nth)
  finally show ?thesis .
qed

subsection \<open>DistanceMatrixBuilder: symmetry and the diagonal\<close>

lemma haversine_sym: "haversine radius p q = haversine radius q p"
proof -
  have neg: "\<And>x y :: real. (x - y) * pi / 180 / 2 = - ((y - x) * pi / 180 / 2)"
  proof -
    fix x y :: real
    have "x - y = - (y - x)" by simp
    then show "(x - y) * pi / 180 / 2 = - ((y - x) * pi / 180 / 2)"
      by (simp only: mult_minus_left minus_divide_left)
  qed
  have a: "(latitude p - latitude q) * pi / 180 / 2 = - ((latitude q - latitude p) * pi / 180 / 2)"
    by (rule neg)
  have b: "(longitude p - longitude q) * pi / 180 / 2 = - ((longitude q - longitude p) * pi / 180 / 2)"
    by (rule neg)
  have "(sin ((latitude p - latitude q) * pi / 180 / 2))\<^sup>2
        = (sin ((latitude q - latitude p) * pi / 180 / 2))\<^sup>2"
    unfolding a by simp
  moreover have "(sin ((longitude p - longitude q) * pi / 180 / 2))\<^sup>2
        = (sin ((longitude q - longitude p) * pi / 180 / 2))\<^sup>2"
    unfolding b by simp
  ultimately show ?thesis
    by (simp add: haversine_def Let_def mult.commute)
qed

lemma haversine_self: "haversine radius p p = 0"
  by (simp add: haversine_def)

lemma build_with_nth:
  "i < length points \<Longrightarrow> j < length points \<Longrightarrow>
   build_with metric points ! i ! j = metric (points ! i) (points ! j)"
  by (simp add: build_with_def)

text \<open>
  Claim C5. For every list of \<open>N\<close> points the matrix of \<open>build\<close> has \<open>N\<close> rows of
  \<open>N\<close> entries, is symmetric and has a zero diagonal.
\<close>

theorem build_symmetric_zero_diagonal:
  "length (build radius points) = length points
   \<and> square (build radius points)
   \<and> (i < length points \<and> j < length points \<longrightarrow>
        build radius points ! i ! j = build radius points ! j ! i
        \<and> build radius points ! i ! i = 0)"
  by (simp add: build_def length_build_with build_with_square build_with_nth
        haversine_self haversine_sym [of radius "points ! i" "points ! j"])

theorem build_symmetric_zero_diagonal_witness:
  "(0::nat) < length [\<lparr>latitude = 37.77, longitude = -122.42\<rparr>, \<lparr>latitude = 34.05, longitude = -118.24\<rparr>]
   \<and> (1::nat) < length [\<lparr>latitude = 37.77, longitude = -122.42\<rparr>, \<lparr>latitude = 34.05, longitude = -118.24\<rparr>]
   \<and> build 3959 [\<lparr>latitude = 37.77, longitude = -122.42\<rparr>, \<lparr>latitude = 34.05, longitude = -118.24\<rparr>] ! 0 ! 1
       = build 3959 [\<lparr>latitude = 37.77, longitude = -122.42\<rparr>, \<lparr>latitude = 34.05, longitude = -118.24\<rparr>] ! 1 ! 0
   \<and> build 3959 [\<lparr>latitude = 37.77, longitude = -122.42\<rparr>, \<lparr>latitude = 34.05, longitude = -118.24\<rparr>] ! 0 ! 0 = 0"
  using build_symmetric_zero_diagonal
    [of 3959 "[\<lparr>latitude = 37.77, longitude = -122.42\<rparr>, \<lparr>latitude = 34.05, longitude = -118.24\<rparr>]" 0 1]
  by simp

subsection \<open>RouteOptimizer: completeness and determinism\<close>

text \<open>
  Claim C1. The order returned by \<open>optimize\<close> is a permutation of the indices of the
  matrix; in the planning flow, given in the indices of the input, it is a permutation
  of exactly the input indices with valid geocoding, without repetition, and the
  unresolvable ones are reported apart. With no start index, or one inside the matrix,
  the flow returns such an order.
\<close>

theorem optimize_permutation:
  "(optimize budget m startIndex = Inr tour \<longrightarrow> mset tour = mset [0..<length m])
   \<and> (plan_order metric budget points startIndex = Inr (order, excluded) \<longrightarrow>
        mset order = mset (geocoded points) \<and> distinct order
        \<and> excluded = unresolvable points)
   \<and> (startIndex = None \<or> (\<exists>s. startIndex = Some s \<and> s < length (geocoded points)) \<longrightarrow>
        (\<exists>order. plan_order metric budget points startIndex = Inr (order, unresolvable points)))"
proof (intro conjI impI)
  assume "optimize budget m startIndex = Inr tour"
  then show "mset tour = mset [0..<length m]" by (rule optimize_mset)
next
  let ?valid = "geocoded points"
  let ?m = "build_with metric (map (\<lambda>i. the (points ! i)) ?valid)"
  assume a: "plan_order metric budget points startIndex = Inr (order, excluded)"
  then obtain t where t: "optimize budget ?m startIndex = Inr t"
    and o: "order = map (\<lambda>k. ?valid ! k) t" and e: "excluded = unresolvable points"
    by (auto simp add: plan_order_def Let_def split: sum.splits)
  have "mset t = mset [0..<length ?m]" using t by (rule optimize_mset)
  then have "mset t = mset [0..<length ?valid]" by (simp add: length_build_with)
  then have ms: "mset (map (\<lambda>k. ?valid ! k) t) = mset ?valid" by (rule map_nth_mset)
  show "mset order = mset (geocoded points)" using ms o by simp
  show "distinct order"
    using ms o distinct_geocoded [of points] mset_eq_imp_distinct_iff by blast
  show "excluded = unresolvable points" by (rule e)
next
  let ?valid = "geocoded points"
  let ?m = "build_with metric (map (\<lambda>i. the (points ! i)) ?valid)"
  assume "startIndex = None \<or> (\<exists>s. startIndex = Some s \<and> s < length (geocoded points))"
  then have "startIndex = None \<or> (\<exists>s. startIndex = Some s \<and> s < length ?m)"
    by (simp add: length_build_with)
  with build_with_square obtain t where "optimize budget ?m startIndex = Inr t"
    using optimize_total by blast
  then show "\<exists>order. plan_order metric budget points startIndex = Inr (order, unresolvable points)"
    by (simp add: plan_order_def Let_def)
qed

theorem optimize_permutation_witness:
  "optimize 10 line_matrix (Some 2) = Inr [2, 0, 3, 1]
   \<and> mset [2, 0, 3, 1] = mset [0..<length line_matrix]
   \<and> plan_order line_metric 10 line_points None = Inr ([0, 3, 1], [2])
   \<and> mset [0, 3, 1] = mset (geocoded line_points)
   \<and> distinct [0, 3, 1 :: nat]
   \<and> [2] = unresolvable line_points"
proof -
  have a: "optimize 10 line_matrix (Some 2) = Inr [2, 0, 3, 1]" by code_simp
  have b: "plan_order line_metric 10 line_points None = Inr ([0, 3, 1], [2])" by code_simp
  show ?thesis
    using a b
      optimize_permutation [of 10 line_matrix "Some 2" "[2, 0, 3, 1]" line_metric line_points
                               "[0, 3, 1]" "[2]"]
      optimize_permutation [of 10 line_matrix None "[2, 0, 3, 1]" line_metric line_points
                               "[0, 3, 1]" "[2]"]
    by blast
qed

subsection \<open>RouteOptimizer: the tour is fixed by the rules\<close>

lemma lowest_choice_iff:
  "lowest_choice f (set js) k \<longleftrightarrow> lowest_cost_index f js = Some k"
  by (simp add: lowest_choice_def lowest_cost_index_iff)

lemma nn_visit_follows_rule:
  "distinct u \<Longrightarrow> length u = n \<Longrightarrow> nn_path m cur (set u) (nn_visit n m cur u)"
proof (induction n arbitrary: cur u)
  case 0
  then show ?case by (simp add: nn_done)
next
  case (Suc n)
  then have "u \<noteq> []" by auto
  then obtain k where k: "nearest m cur u = Some k"
    by (cases "nearest m cur u") (auto simp add: nearest_def lowest_cost_index_None)
  then have lc: "lowest_choice (\<lambda>j. m ! cur ! j) (set u) k"
    by (simp add: lowest_choice_iff nearest_def)
  then have kin: "k \<in> set u" by (simp add: lowest_choice_def)
  have d: "distinct (remove1 k u)" using Suc.prems(1) by simp
  have l: "length (remove1 k u) = n" using Suc.prems(2) kin by (simp add: length_remove1)
  have s: "set (remove1 k u) = set u - {k}" using Suc.prems(1) by simp
  have "nn_path m k (set (remove1 k u)) (nn_visit n m k (remove1 k u))"
    using d l by (rule Suc.IH)
  then have "nn_path m k (set u - {k}) (nn_visit n m k (remove1 k u))" using s by simp
  with lc have "nn_path m cur (set u) (k # nn_visit n m k (remove1 k u))" by (rule nn_step)
  with k show ?case by simp
qed

lemma nn_path_determines:
  "nn_path m cur U t \<Longrightarrow> set u = U \<Longrightarrow> distinct u \<Longrightarrow> nn_visit (length u) m cur u = t"
proof (induction arbitrary: u rule: nn_path.induct)
  case (nn_done cur)
  then show ?case by simp
next
  case (nn_step cur unvisited k rest)
  have lc: "lowest_choice (\<lambda>j. m ! cur ! j) (set u) k" using nn_step.hyps(1) nn_step.prems(1) by simp
  then have k: "nearest m cur u = Some k" by (simp add: lowest_choice_iff nearest_def)
  have kin: "k \<in> set u" using lc by (simp add: lowest_choice_def)
  then obtain n where n: "length u = Suc n" by (cases u) auto
  have "set (remove1 k u) = unvisited - {k}" using nn_step.prems by simp
  moreover have "distinct (remove1 k u)" using nn_step.prems(2) by simp
  ultimately have "nn_visit (length (remove1 k u)) m k (remove1 k u) = rest"
    by (rule nn_step.IH)
  moreover have "length (remove1 k u) = n" using n kin by (simp add: length_remove1)
  ultimately show ?case using n k by simp
qed

lemma nn_tour_iff:
  "nn_tour m s t \<longleftrightarrow> s < length m \<and> t = nearest_neighbor m s"
proof (cases "s < length m")
  case False
  then show ?thesis by (simp add: nn_tour_def)
next
  case True
  define u where "u = remove1 s [0..<length m]"
  have d: "distinct u" by (simp add: u_def)
  have l: "length u = length m - 1" using True by (simp add: u_def length_remove1)
  have st: "set u = {0..<length m} - {s}" by (simp add: u_def)
  have nb: "nearest_neighbor m s = s # nn_visit (length m - 1) m s u"
    by (simp add: nearest_neighbor_def u_def)
  have fwd: "nn_path m s ({0..<length m} - {s}) (nn_visit (length m - 1) m s u)"
    using nn_visit_follows_rule [OF d l, of m s] by (simp only: st)
  have bwd: "nn_visit (length m - 1) m s u = rest"
    if "nn_path m s ({0..<length m} - {s}) rest" for rest
    using nn_path_determines [OF that st d] by (simp only: l)
  show ?thesis
  proof
    assume "nn_tour m s t"
    then obtain rest where "t = s # rest" "nn_path m s ({0..<length m} - {s}) rest"
      unfolding nn_tour_def by blast
    then show "s < length m \<and> t = nearest_neighbor m s"
      using True bwd nb by simp
  next
    assume "s < length m \<and> t = nearest_neighbor m s"
    then show "nn_tour m s t"
      unfolding nn_tour_def using fwd nb by blast
  qed
qed

lemma start_choice_None:
  "start_choice m None s \<longleftrightarrow> best_start m = Some s"
proof -
  let ?L = "\<lambda>x. tour_length m (nearest_neighbor m x)"
  have "start_choice m None s \<longleftrightarrow>
        s < length m \<and> (\<forall>x<length m. ?L s < ?L x \<or> (?L s = ?L x \<and> s \<le> x))"
    by (auto simp add: start_choice_def nn_tour_iff)
  also have "\<dots> \<longleftrightarrow> s \<in> set [0..<length m]
        \<and> (\<forall>x\<in>set [0..<length m]. ?L s < ?L x \<or> (?L s = ?L x \<and> s \<le> x))"
    by auto
  also have "\<dots> \<longleftrightarrow> best_start m = Some s"
    unfolding best_start_def by (rule lowest_cost_index_iff [symmetric])
  finally show ?thesis .
qed

lemma swap_positions_set:
  "(i, j) \<in> set (swap_positions n) \<longleftrightarrow> 1 \<le> i \<and> i < j \<and> Suc j < n"
proof
  assume "(i, j) \<in> set (swap_positions n)"
  then show "1 \<le> i \<and> i < j \<and> Suc j < n" by (auto simp add: swap_positions_def)
next
  assume a: "1 \<le> i \<and> i < j \<and> Suc j < n"
  then have "i \<in> set [1..<n - 1]" and "j \<in> set [Suc i..<n - 1]" by auto
  then show "(i, j) \<in> set (swap_positions n)"
    unfolding swap_positions_def by (simp del: set_upt) blast
qed

lemma sorted_pairs:
  "sorted_wrt (<) (is :: nat list) \<Longrightarrow>
   sorted_wrt (\<lambda>p q. fst p < fst q \<or> (fst p = fst q \<and> snd p < snd q))
     (concat (map (\<lambda>i. map (\<lambda>j. (i, j)) [g i..<h]) is))"
proof (induction "is")
  case Nil
  then show ?case by simp
next
  case (Cons a "is")
  have row: "sorted_wrt (\<lambda>p q. fst p < fst q \<or> (fst p = fst q \<and> snd p < snd q))
               (map (\<lambda>j. (a, j)) [g a..<h])"
  proof -
    have "(\<lambda>x y :: nat. a < a \<or> x < y) = (<)" by (intro ext) simp
    then show ?thesis by (simp add: sorted_wrt_map)
  qed
  have rest: "sorted_wrt (\<lambda>p q. fst p < fst q \<or> (fst p = fst q \<and> snd p < snd q))
               (concat (map (\<lambda>i. map (\<lambda>j. (i, j)) [g i..<h]) is))"
    using Cons by simp
  have cross: "\<forall>p\<in>set (map (\<lambda>j. (a, j)) [g a..<h]).
               \<forall>q\<in>set (concat (map (\<lambda>i. map (\<lambda>j. (i, j)) [g i..<h]) is)). fst p < fst q"
    using Cons.prems by auto
  have "concat (map (\<lambda>i. map (\<lambda>j. (i, j)) [g i..<h]) (a # is))
        = map (\<lambda>j. (a, j)) [g a..<h] @ concat (map (\<lambda>i. map (\<lambda>j. (i, j)) [g i..<h]) is)"
    by simp
  moreover have "sorted_wrt (\<lambda>p q. fst p < fst q \<or> (fst p = fst q \<and> snd p < snd q))
        (map (\<lambda>j. (a, j)) [g a..<h] @ concat (map (\<lambda>i. map (\<lambda>j. (i, j)) [g i..<h]) is))"
    unfolding sorted_wrt_append using row rest cross by blast
  ultimately show ?case by (simp only:)
qed

lemma swap_positions_sorted:
  "sorted_wrt (\<lambda>p q. fst p < fst q \<or> (fst p = fst q \<and> snd p < snd q)) (swap_positions n)"
  unfolding swap_positions_def by (rule sorted_pairs) simp

lemma find_least:
  assumes "sorted_wrt R xs" and "\<And>x y. R x y \<Longrightarrow> \<not> R y x"
  shows "find P xs = Some x \<longleftrightarrow> x \<in> set xs \<and> P x \<and> (\<forall>y\<in>set xs. P y \<longrightarrow> x = y \<or> R x y)"
  using assms(1)
proof (induction xs)
  case Nil
  then show ?case by simp
next
  case (Cons a xs)
  then have later: "\<forall>y\<in>set xs. R a y" and tl: "sorted_wrt R xs" by simp_all
  show ?case
  proof (cases "P a")
    case True
    have "x = a" if "x \<in> set (a # xs)" "\<forall>y\<in>set (a # xs). P y \<longrightarrow> x = y \<or> R x y"
    proof (rule ccontr)
      assume ne: "x \<noteq> a"
      with that(1) have "x \<in> set xs" by simp
      then have "R a x" using later by blast
      moreover have "R x a" using that(2) True ne by auto
      ultimately show False using assms(2) by blast
    qed
    then show ?thesis using True later by auto
  next
    case False
    have "find P xs = Some x \<longleftrightarrow>
          x \<in> set xs \<and> P x \<and> (\<forall>y\<in>set xs. P y \<longrightarrow> x = y \<or> R x y)"
      using tl by (rule Cons.IH)
    then show ?thesis using False by auto
  qed
qed

lemma first_improvement_Some:
  "first_improvement m t = Some (i, j) \<longleftrightarrow> first_swap m t i j"
proof -
  let ?P = "\<lambda>(i, j). tour_length m (reverse_segment t i j) < tour_length m t"
  let ?R = "\<lambda>p q :: nat \<times> nat. fst p < fst q \<or> (fst p = fst q \<and> snd p < snd q)"
  let ?S = "set (swap_positions (length t))"
  have asym: "\<And>x y. ?R x y \<Longrightarrow> \<not> ?R y x" by auto
  have imp: "\<And>a b. improving_swap m t a b \<longleftrightarrow> (a, b) \<in> ?S \<and> ?P (a, b)"
    by (simp add: improving_swap_def swap_positions_set conj_ac)
  have lex: "\<And>a b. ((i, j) = (a, b) \<or> ?R (i, j) (a, b)) \<longleftrightarrow> (i < a \<or> (i = a \<and> j \<le> b))"
    by auto
  have "first_improvement m t = Some (i, j) \<longleftrightarrow>
        (i, j) \<in> ?S \<and> ?P (i, j) \<and> (\<forall>y\<in>?S. ?P y \<longrightarrow> (i, j) = y \<or> ?R (i, j) y)"
    unfolding first_improvement_def
    using find_least [of ?R "swap_positions (length t)" ?P "(i, j)"]
      swap_positions_sorted [of "length t"] asym by blast
  also have "\<dots> \<longleftrightarrow> improving_swap m t i j
        \<and> (\<forall>a b. improving_swap m t a b \<longrightarrow> (i, j) = (a, b) \<or> ?R (i, j) (a, b))"
    unfolding imp by (simp only: Ball_def split_paired_All imp_conjL conj_assoc)
  also have "\<dots> \<longleftrightarrow> first_swap m t i j"
    unfolding first_swap_def lex ..
  finally show ?thesis .
qed

lemma first_improvement_None:
  "first_improvement m t = None \<longleftrightarrow> (\<forall>i j. \<not> improving_swap m t i j)"
  by (auto simp add: first_improvement_def find_None_iff improving_swap_def swap_positions_set)

lemma two_opt_follows_rule: "two_opt_run m b t (two_opt b m t)"
proof (induction b arbitrary: t)
  case 0
  then show ?case by (simp add: out_of_budget)
next
  case (Suc b)
  show ?case
  proof (cases "first_improvement m t")
    case None
    then have "\<forall>i j. \<not> improving_swap m t i j" by (simp add: first_improvement_None)
    then have "two_opt_run m (Suc b) t t" by (rule local_optimum)
    with None show ?thesis by simp
  next
    case (Some ij)
    obtain i j where ij: "ij = (i, j)" by (cases ij)
    have "first_swap m t i j" using Some ij by (simp add: first_improvement_Some)
    moreover have "two_opt_run m b (reverse_segment t i j) (two_opt b m (reverse_segment t i j))"
      by (rule Suc.IH)
    ultimately have "two_opt_run m (Suc b) t (two_opt b m (reverse_segment t i j))"
      by (rule swap)
    with Some ij show ?thesis by simp
  qed
qed

lemma two_opt_run_determines: "two_opt_run m b t t' \<Longrightarrow> two_opt b m t = t'"
proof (induction rule: two_opt_run.induct)
  case (out_of_budget t)
  then show ?case by simp
next
  case (local_optimum t b)
  then have "first_improvement m t = None" by (simp add: first_improvement_None)
  then show ?case by (cases b) simp_all
next
  case (swap t i j b t')
  then have "first_improvement m t = Some (i, j)" by (simp add: first_improvement_Some)
  with swap.IH show ?case by simp
qed

lemma two_opt_run_iff: "two_opt_run m b t t' \<longleftrightarrow> t' = two_opt b m t"
  using two_opt_follows_rule two_opt_run_determines by blast

lemma two_opt_at_optimum:
  "first_improvement m (two_opt b m t) = None \<Longrightarrow> two_opt (b + extra) m t = two_opt b m t"
proof (induction b arbitrary: t)
  case 0
  then show ?case by (cases extra) simp_all
next
  case (Suc b)
  show ?case
  proof (cases "first_improvement m t")
    case None
    then show ?thesis by simp
  next
    case (Some ij)
    obtain i j where ij: "ij = (i, j)" by (cases ij)
    have "first_improvement m (two_opt b m (reverse_segment t i j)) = None"
      using Suc.prems Some ij by simp
    then have "two_opt (b + extra) m (reverse_segment t i j) = two_opt b m (reverse_segment t i j)"
      by (rule Suc.IH)
    with Some ij show ?thesis by simp
  qed
qed

lemma optimized_iff:
  "optimized budget m startIndex tour \<longleftrightarrow>
   (\<exists>s. start_choice m startIndex s \<and> s < length m
        \<and> tour = two_opt budget m (nearest_neighbor m s))"
  by (auto simp add: optimized_def nn_tour_iff two_opt_run_iff)

lemma optimize_iff_optimized:
  assumes "square m" and "length m \<noteq> 0"
  shows "optimize budget m startIndex = Inr tour \<longleftrightarrow> optimized budget m startIndex tour"
proof (cases startIndex)
  case None
  obtain s where s: "best_start m = Some s" using best_start_Some [OF assms(2)] by blast
  then have lt: "s < length m" by (rule best_start_in_range)
  have "optimized budget m None tour \<longleftrightarrow> tour = two_opt budget m (nearest_neighbor m s)"
    using s lt by (auto simp add: optimized_iff start_choice_None)
  moreover have "optimize budget m None = Inr (two_opt budget m (nearest_neighbor m s))"
    using assms s by (simp add: optimize_def)
  ultimately show ?thesis using None by auto
next
  case (Some x)
  have "optimized budget m (Some x) tour \<longleftrightarrow>
        x < length m \<and> tour = two_opt budget m (nearest_neighbor m x)"
    by (auto simp add: optimized_iff start_choice_def)
  moreover have "optimize budget m (Some x) =
        (if x < length m then Inr (two_opt budget m (nearest_neighbor m x)) else Inl ValidationError)"
    using assms by (simp add: optimize_def)
  ultimately show ?thesis using Some by auto
qed

lemma optimized_unique:
  assumes "optimized budget m startIndex tour" and "optimized budget m startIndex tour'"
  shows "tour = tour'"
proof -
  from assms obtain s s' where
    a: "start_choice m startIndex s" "tour = two_opt budget m (nearest_neighbor m s)" and
    b: "start_choice m startIndex s'" "tour' = two_opt budget m (nearest_neighbor m s')"
    unfolding optimized_iff by blast
  have "s = s'"
  proof (cases startIndex)
    case None
    with a(1) b(1) show ?thesis by (simp add: start_choice_None)
  next
    case (Some x)
    with a(1) b(1) show ?thesis by (simp add: start_choice_def)
  qed
  with a(2) b(2) show ?thesis by simp
qed

text \<open>
  Claim C2, as stated, fails: the claim fixes the input ordering and the matrix, not the
  budget of the 2-opt loop, and the tour depends on that budget. On the same matrix and
  from the same start, a run that is cut off before its first swap returns the
  nearest-neighbour tour, and a run with one iteration returns the improved tour.
\<close>

theorem optimize_budget_counterexample:
  "optimize 0 detour_matrix (Some 0) = Inr [0, 1, 2, 3]
   \<and> optimize 1 detour_matrix (Some 0) = Inr [0, 2, 1, 3]"
  by code_simp

text \<open>
  Claim C2, amended. For every matrix, optional start index and iteration budget,
  \<open>optimize\<close> returns exactly the tour the rules allow: the nearest-neighbour tour from
  the start (the given one, or the lowest index among the points of shortest
  nearest-neighbour tour), in which every next stop is the unvisited index of lowest cost
  and, among equal costs, of lowest index; then at most \<open>budget\<close> 2-opt swaps, each the
  improving swap of lowest \<open>(i, j)\<close>. The rules allow one tour only, so two runs on the
  same matrix, start and budget return the same tour; and a run that ended with no
  improving swap left returns the same tour under every larger budget.
\<close>

theorem optimize_follows_rules:
  "(square m \<and> length m \<noteq> 0 \<longrightarrow>
      (optimize budget m startIndex = Inr tour \<longleftrightarrow> optimized budget m startIndex tour))
   \<and> (optimized budget m startIndex tour \<and> optimized budget m startIndex tour' \<longrightarrow>
      tour = tour')
   \<and> (optimize budget m startIndex = Inr tour \<and> (\<forall>i j. \<not> improving_swap m tour i j) \<longrightarrow>
      optimize (budget + extra) m startIndex = Inr tour)"
proof (intro conjI impI)
  assume "square m \<and> length m \<noteq> 0"
  then show "optimize budget m startIndex = Inr tour \<longleftrightarrow> optimized budget m startIndex tour"
    by (simp add: optimize_iff_optimized)
next
  assume "optimized budget m startIndex tour \<and> optimized budget m startIndex tour'"
  then show "tour = tour'" using optimized_unique by blast
next
  assume a: "optimize budget m startIndex = Inr tour \<and> (\<forall>i j. \<not> improving_swap m tour i j)"
  then have sq: "square m" by (auto simp add: optimize_def split: if_splits)
  show "optimize (budget + extra) m startIndex = Inr tour"
  proof (cases "length m = 0")
    case True
    with a sq show ?thesis by (simp add: optimize_def)
  next
    case False
    from a have "optimized budget m startIndex tour"
      using sq False by (simp add: optimize_iff_optimized)
    then obtain s where s: "start_choice m startIndex s" "s < length m"
      and t: "tour = two_opt budget m (nearest_neighbor m s)"
      unfolding optimized_iff by blast
    have "first_improvement m (two_opt budget m (nearest_neighbor m s)) = None"
      using a t by (simp add: first_improvement_None)
    then have "two_opt (budget + extra) m (nearest_neighbor m s) = tour"
      using t by (simp add: two_opt_at_optimum)
    then have "optimized (budget + extra) m startIndex tour"
      unfolding optimized_iff using s by blast
    then show ?thesis using sq False by (simp add: optimize_iff_optimized)
  qed
qed

theorem optimize_follows_rules_witness:
  "square line_matrix \<and> length line_matrix \<noteq> 0
   \<and> line_matrix ! 2 ! 0 = line_matrix ! 2 ! 3
   \<and> optimize 10 line_matrix (Some 2) = Inr [2, 0, 3, 1]
   \<and> optimized 10 line_matrix (Some 2) [2, 0, 3, 1]
   \<and> optimize (10 + 5) line_matrix (Some 2) = Inr [2, 0, 3, 1]"
proof -
  have sq: "square line_matrix \<and> length line_matrix \<noteq> 0"
    by (simp add: square_def line_matrix_def)
  have tie: "line_matrix ! 2 ! 0 = line_matrix ! 2 ! 3" by (simp add: line_matrix_def)
  have run: "optimize 10 line_matrix (Some 2) = Inr [2, 0, 3, 1]" by code_simp
  have "first_improvement line_matrix [2, 0, 3, 1] = None" by code_simp
  then have opt: "\<forall>i j. \<not> improving_swap line_matrix [2, 0, 3, 1] i j"
    by (simp add: first_improvement_None)
  note rules = optimize_follows_rules
    [of line_matrix 10 "Some 2" "[2, 0, 3, 1]" "[2, 0, 3, 1]" 5]
  have a: "optimized 10 line_matrix (Some 2) [2, 0, 3, 1]" using rules sq run by blast
  have b: "optimize (10 + 5) line_matrix (Some 2) = Inr [2, 0, 3, 1]"
    using rules run opt by blast
  show ?thesis using sq tie run a b by blast
qed


subsection \<open>EntityMatcher: merge-fill safety\<close>

lemma merge_fill_keeps: "\<not> is_empty (stored a) \<Longrightarrow> merge_fill stored candidate a = stored a"
  by (simp add: merge_fill_def)

lemma merge_fill_change:
  "merge_fill stored candidate a \<noteq> stored a \<Longrightarrow>
   is_empty (stored a) \<and> \<not> is_empty (candidate a) \<and> merge_fill stored candidate a = candidate a"
  by (simp add: merge_fill_def split: if_splits)

lemma length_merge_into: "length (merge_into i candidate st) = length st"
  by (simp add: merge_into_def)

lemma merge_into_nth:
  "n < length st \<Longrightarrow>
   merge_into i candidate st ! n =
     (if fst (st ! n) = i then (i, merge_fill (snd (st ! n)) candidate) else st ! n)"
  by (simp add: merge_into_def split: prod.splits)

lemma resolve_store:
  "snd (resolve mt st candidate) = st
   \<or> (\<exists>i. matched_id (fst (resolve mt st candidate)) = Some i
          \<and> (status (fst (resolve mt st candidate)) = EXACT
              \<or> status (fst (resolve mt st candidate)) = FUZZY)
          \<and> snd (resolve mt st candidate) = merge_into i candidate st)"
  by (simp add: resolve_def split: option.splits prod.splits)

text \<open>
  Claim C3. Whatever the outcome of resolving a candidate, and so in particular on
  \<open>EXACT\<close> and \<open>FUZZY\<close>, the store keeps its entities and their ids, and every
  attribute of a stored entity that was non-empty before has the same value afterwards.
  An attribute changes only on \<open>EXACT\<close> or \<open>FUZZY\<close>, only on the matched entity, only
  when it was empty, and then it takes the candidate's value.
\<close>

theorem resolve_merge_fill_safe:
  assumes "resolve mt st candidate = (r, st')"
  shows "length st' = length st
   \<and> (\<forall>n<length st. fst (st' ! n) = fst (st ! n)
        \<and> (\<forall>a. \<not> is_empty (snd (st ! n) a) \<longrightarrow> snd (st' ! n) a = snd (st ! n) a)
        \<and> (\<forall>a. snd (st' ! n) a \<noteq> snd (st ! n) a \<longrightarrow>
               (status r = EXACT \<or> status r = FUZZY)
               \<and> matched_id r = Some (fst (st ! n))
               \<and> is_empty (snd (st ! n) a)
               \<and> snd (st' ! n) a = candidate a))"
proof -
  from resolve_store [of mt st candidate] assms
  consider "st' = st"
    | i where "matched_id r = Some i" "status r = EXACT \<or> status r = FUZZY"
        "st' = merge_into i candidate st"
    by auto
  then show ?thesis
  proof cases
    case 1
    then show ?thesis by simp
  next
    case 2
    show ?thesis
    proof (intro conjI allI impI)
      show "length st' = length st" using 2(3) by (simp add: length_merge_into)
    next
      fix n assume "n < length st"
      then show "fst (st' ! n) = fst (st ! n)" using 2(3) by (simp add: merge_into_nth)
    next
      fix n a assume "n < length st" "\<not> is_empty (snd (st ! n) a)"
      then show "snd (st' ! n) a = snd (st ! n) a"
        using 2(3) by (simp add: merge_into_nth merge_fill_keeps)
    next
      fix n a assume n: "n < length st" and ch: "snd (st' ! n) a \<noteq> snd (st ! n) a"
      show "status r = EXACT \<or> status r = FUZZY" by (rule 2(2))
      from n ch 2(3) have f: "fst (st ! n) = i"
        by (auto simp add: merge_into_nth split: if_splits)
      then show "matched_id r = Some (fst (st ! n))" using 2(1) by simp
      from n ch 2(3) f have "merge_fill (snd (st ! n)) candidate a \<noteq> snd (st ! n) a"
        by (simp add: merge_into_nth)
      then have c: "is_empty (snd (st ! n) a) \<and> \<not> is_empty (candidate a)
             \<and> merge_fill (snd (st ! n)) candidate a = candidate a"
        by (rule merge_fill_change)
      then show "is_empty (snd (st ! n) a)" by simp
      show "snd (st' ! n) a = candidate a" using c n 2(3) f by (simp add: merge_into_nth)
    qed
  qed
qed

theorem resolve_merge_fill_safe_witness:
  "status (fst (resolve sample_matcher sample_store sample_candidate)) = FUZZY
   \<and> matched_id (fst (resolve sample_matcher sample_store sample_candidate)) = Some 7
   \<and> \<not> is_empty (snd (sample_store ! 0) ''phone'')
   \<and> snd (snd (resolve sample_matcher sample_store sample_candidate) ! 0) ''phone''
       = Some ''5551234''
   \<and> is_empty (snd (sample_store ! 0) ''city'')
   \<and> snd (snd (resolve sample_matcher sample_store sample_candidate) ! 0) ''city''
       = Some ''San Francisco''"
proof -
  obtain r st' where res: "resolve sample_matcher sample_store sample_candidate = (r, st')"
    by (cases "resolve sample_matcher sample_store sample_candidate")
  have st: "status (fst (resolve sample_matcher sample_store sample_candidate)) = FUZZY"
    and mi: "matched_id (fst (resolve sample_matcher sample_store sample_candidate)) = Some 7"
    by (simp_all add: resolve_def sample_matcher_def sample_store_def sample_candidate_def
          exact_lookup_def scored_def near_tie_def)
  have city: "snd (snd (resolve sample_matcher sample_store sample_candidate) ! 0) ''city''
       = Some ''San Francisco''"
    by (simp add: resolve_def sample_matcher_def sample_store_def sample_candidate_def
          exact_lookup_def scored_def near_tie_def merge_into_def merge_fill_def is_empty_def)
  have len: "0 < length sample_store" by (simp add: sample_store_def)
  have ph: "\<not> is_empty (snd (sample_store ! 0) ''phone'')"
    and ci: "is_empty (snd (sample_store ! 0) ''city'')"
    and pv: "snd (sample_store ! 0) ''phone'' = Some ''5551234''"
    by (simp_all add: sample_store_def is_empty_def)
  from resolve_merge_fill_safe [OF res] len ph
  have "snd (st' ! 0) ''phone'' = snd (sample_store ! 0) ''phone''" by blast
  then have "snd (snd (resolve sample_matcher sample_store sample_candidate) ! 0) ''phone''
       = Some ''5551234''"
    using res pv by simp
  then show ?thesis using st mi ph ci city by simp
qed

end
